theory Spec2Isabelle
  imports Main "HOL-Library.Sublist"
begin

section \<open>JavaScript string primitives used by the tag parser\<close>

text \<open>
  Strings are lists of code units. The parser only inspects ASCII delimiters, so a code
  unit is a \<^typ>\<open>char\<close>, which has 256 values. Of the white space that
  \<^verbatim>\<open>trim\<close> strips, the code units below 256 are 9 to 13, 32 and 160; the others
  (U+1680, U+2000 to U+200A, U+2028, U+2029, U+202F, U+205F, U+3000 and U+FEFF) have no
  \<^typ>\<open>char\<close> and are not modelled. The functions below are the library calls of
  \<^verbatim>\<open>dyad_tag_parser.ts\<close>: \<^verbatim>\<open>String.prototype.trim\<close>, \<^verbatim>\<open>split\<close> on a
  one-character separator, \<^verbatim>\<open>startsWith\<close> (which is \<^const>\<open>prefix\<close>) and
  \<^verbatim>\<open>Array.prototype.join\<close>.
\<close>

definition dquote :: char where
  "dquote = CHR 0x22"

definition is_js_space :: "char \<Rightarrow> bool" where
  "is_js_space c = ((of_char c :: nat) \<in> {9, 10, 11, 12, 13, 32, 160})"

definition trim :: "string \<Rightarrow> string" where
  "trim s = rev (dropWhile is_js_space (rev (dropWhile is_js_space s)))"

text \<open>\<^verbatim>\<open>s.split(d)\<close> for a one-character separator: never the empty array, and two
  adjacent separators enclose an empty string.\<close>

fun split_char :: "char \<Rightarrow> string \<Rightarrow> string list" where
  "split_char d [] = [ [] ]"
| "split_char d (c # cs) =
     (if c = d then [] # split_char d cs
      else (case split_char d cs of
              [] \<Rightarrow> [ [c] ]
            | x # xs \<Rightarrow> (c # x) # xs))"

fun join :: "string \<Rightarrow> string list \<Rightarrow> string" where
  "join sep [] = []"
| "join sep [x] = x"
| "join sep (x # y # ys) = x @ sep @ join sep (y # ys)"

section \<open>Regular expressions of the tag parser\<close>

text \<open>
  Each regular expression of the parser is a literal, a greedy run of a negated character
  class closed by the excluded character, and a lazy \<^verbatim>\<open>[\s\S]*?\<close> closed by a literal.
  None of them can match in two ways at one start position, so a match attempt at the head
  of a string is a function. The \<^verbatim>\<open>i\<close> flag folds ASCII letters only (a code unit of
  128 or more is never folded onto an ASCII one).
\<close>

definition upcase :: "char \<Rightarrow> char" where
  "upcase c = (if 97 \<le> (of_char c :: nat) \<and> (of_char c :: nat) \<le> 122
               then char_of ((of_char c :: nat) - 32) else c)"

fun ci_prefix :: "string \<Rightarrow> string \<Rightarrow> bool" where
  "ci_prefix [] s = True"
| "ci_prefix (p # ps) [] = False"
| "ci_prefix (p # ps) (c # cs) = (upcase p = upcase c \<and> ci_prefix ps cs)"

text \<open>A literal at the head of the string; the result is what follows it.\<close>

definition lit :: "string \<Rightarrow> string \<Rightarrow> string option" where
  "lit p s = (if prefix p s then Some (drop (length p) s) else None)"

definition lit_ci :: "string \<Rightarrow> string \<Rightarrow> string option" where
  "lit_ci p s = (if ci_prefix p s then Some (drop (length p) s) else None)"

text \<open>\<^verbatim>\<open>([\s\S]*?)close\<close>: the shortest body followed by the closing literal.\<close>

fun lazy_until :: "string \<Rightarrow> string \<Rightarrow> (string \<times> string) option" where
  "lazy_until close [] = (if close = [] then Some ([], []) else None)"
| "lazy_until close (c # cs) =
     (if prefix close (c # cs) then Some ([], drop (length close) (c # cs))
      else map_option (\<lambda>(b, r). (c # b, r)) (lazy_until close cs))"

fun lazy_until_ci :: "string \<Rightarrow> string \<Rightarrow> (string \<times> string) option" where
  "lazy_until_ci close [] = (if close = [] then Some ([], []) else None)"
| "lazy_until_ci close (c # cs) =
     (if ci_prefix close (c # cs) then Some ([], drop (length close) (c # cs))
      else map_option (\<lambda>(b, r). (c # b, r)) (lazy_until_ci close cs))"

text \<open>\<^verbatim>\<open>([^x]+)x\<close>: a non-empty run of characters other than \<open>x\<close>, then \<open>x\<close>.\<close>

definition run1_then :: "char \<Rightarrow> string \<Rightarrow> (string \<times> string) option" where
  "run1_then x s =
     (let v = takeWhile (\<lambda>c. c \<noteq> x) s in
      case dropWhile (\<lambda>c. c \<noteq> x) s of
        [] \<Rightarrow> None
      | _ # r \<Rightarrow> (if v = [] then None else Some (v, r)))"

text \<open>\<^verbatim>\<open>([^x]*)x\<close>: a possibly empty run, then \<open>x\<close>.\<close>

definition run0_then :: "char \<Rightarrow> string \<Rightarrow> (string \<times> string) option" where
  "run0_then x s =
     (case dropWhile (\<lambda>c. c \<noteq> x) s of
        [] \<Rightarrow> None
      | _ # r \<Rightarrow> Some (takeWhile (\<lambda>c. c \<noteq> x) s, r))"

text \<open>
  \<^verbatim>\<open>while ((match = re.exec(text)) !== null)\<close> with a global regular expression: the
  leftmost match at or after \<^verbatim>\<open>lastIndex\<close> is taken and \<^verbatim>\<open>lastIndex\<close> moves to
  its end. The second argument counts the code units still covered by the previous match.
  A match attempt returns its captures and the text after the match.
\<close>

fun exec_all :: "(string \<Rightarrow> ('a \<times> string) option) \<Rightarrow> nat \<Rightarrow> string \<Rightarrow> 'a list" where
  "exec_all m k [] = []"
| "exec_all m (Suc k) (c # cs) = exec_all m k cs"
| "exec_all m 0 (c # cs) =
     (case m (c # cs) of
        None \<Rightarrow> exec_all m 0 cs
      | Some (x, rest) \<Rightarrow> x # exec_all m (length cs - length rest) cs)"

text \<open>A non-global \<^verbatim>\<open>re.exec(s)\<close>: the leftmost start position where the attempt
  succeeds.\<close>

fun exec_first :: "(string \<Rightarrow> 'a option) \<Rightarrow> string \<Rightarrow> 'a option" where
  "exec_first m [] = None"
| "exec_first m (c # cs) =
     (case m (c # cs) of Some x \<Rightarrow> Some x | None \<Rightarrow> exec_first m cs)"

text \<open>\<^verbatim>\<open>/name="([^"]+)"/\<close>, the attribute regular expressions \<^verbatim>\<open>pathRegex\<close> and
  \<^verbatim>\<open>descriptionRegex\<close>.\<close>

definition attr_at :: "string \<Rightarrow> string \<Rightarrow> string option" where
  "attr_at name s =
     (case lit (name @ [CHR ''='', dquote]) s of
        None \<Rightarrow> None
      | Some s1 \<Rightarrow> map_option fst (run1_then dquote s1))"

definition attr_regex :: "string \<Rightarrow> string \<Rightarrow> string option" where
  "attr_regex name attrs = exec_first (attr_at name) attrs"

section \<open>The tag parser\<close>

text \<open>
  \<^verbatim>\<open>normalizePath\<close> is imported from \<^verbatim>\<open>shared/normalizePath\<close>; it is a parameter
  \<open>np\<close> of every parser that calls it. A call of \<^verbatim>\<open>logger.warn\<close> is returned next to
  the tags, in call order, with the matched text \<^verbatim>\<open>match[0]\<close> it reports.
\<close>

record content_tag =
  tag_path :: string
  tag_content :: string
  tag_description :: "string option"

record rename_tag =
  rn_from :: string
  rn_to :: string

record sql_query =
  sql_content :: string
  sql_description :: "string option"

datatype parse_warning =
  WriteWithoutPath string
| SearchReplaceWithoutPath string

text \<open>A raw match: the text \<^verbatim>\<open>match[0]\<close>, the attribute string \<^verbatim>\<open>match[1]\<close> and the
  body \<^verbatim>\<open>match[2]\<close>.\<close>

record raw_match =
  m_text :: string
  m_attrs :: string
  m_body :: string

text \<open>\<^verbatim>\<open>/<open([^>]*)>([\s\S]*?)<\/close>/gi\<close> attempted at the head of \<open>s\<close>.\<close>

definition match_tag_ci :: "string \<Rightarrow> string \<Rightarrow> string \<Rightarrow> (raw_match \<times> string) option" where
  "match_tag_ci opn cls s =
     (case lit_ci opn s of
        None \<Rightarrow> None
      | Some s1 \<Rightarrow>
          (case run0_then (CHR ''>'') s1 of
             None \<Rightarrow> None
           | Some (attrs, s2) \<Rightarrow>
               (case lazy_until_ci cls s2 of
                  None \<Rightarrow> None
                | Some (body, rest) \<Rightarrow>
                    Some (\<lparr>m_text = take (length s - length rest) s,
                            m_attrs = attrs, m_body = body\<rparr>, rest))))"

text \<open>The same without the \<^verbatim>\<open>i\<close> flag.\<close>

definition match_tag :: "string \<Rightarrow> string \<Rightarrow> string \<Rightarrow> (raw_match \<times> string) option" where
  "match_tag opn cls s =
     (case lit opn s of
        None \<Rightarrow> None
      | Some s1 \<Rightarrow>
          (case run0_then (CHR ''>'') s1 of
             None \<Rightarrow> None
           | Some (attrs, s2) \<Rightarrow>
               (case lazy_until cls s2 of
                  None \<Rightarrow> None
                | Some (body, rest) \<Rightarrow>
                    Some (\<lparr>m_text = take (length s - length rest) s,
                            m_attrs = attrs, m_body = body\<rparr>, rest))))"

text \<open>The clean-up of a body: split into lines, drop a first line that starts with three
  backquotes, then drop a last line that starts with three backquotes, and join again.\<close>

definition strip_fences :: "string \<Rightarrow> string" where
  "strip_fences body =
     (let contentLines = split_char CHR ''\<newline>'' body;
          l1 = (case contentLines of
                  [] \<Rightarrow> contentLines
                | x # xs \<Rightarrow> if prefix ''```'' x then xs else contentLines);
          l2 = (if l1 \<noteq> [] \<and> prefix ''```'' (last l1) then butlast l1 else l1)
      in join ''\<newline>'' l2)"

text \<open>The body of the loop shared by \<^verbatim>\<open>getDyadWriteTags\<close> and
  \<^verbatim>\<open>getDyadSearchReplaceTags\<close>, which differ in the warning they log.\<close>

definition content_tag_of :: "(string \<Rightarrow> string) \<Rightarrow> raw_match \<Rightarrow> content_tag option" where
  "content_tag_of np m =
     (let content = trim (m_body m) in
      case attr_regex ''path'' (m_attrs m) of
        None \<Rightarrow> None
      | Some p \<Rightarrow>
          Some \<lparr>tag_path = np p, tag_content = strip_fences content,
                tag_description = attr_regex ''description'' (m_attrs m)\<rparr>)"

fun content_tag_loop ::
  "(string \<Rightarrow> string) \<Rightarrow> (string \<Rightarrow> parse_warning) \<Rightarrow> raw_match list
     \<Rightarrow> content_tag list \<times> parse_warning list" where
  "content_tag_loop np warn [] = ([], [])"
| "content_tag_loop np warn (m # ms) =
     (let (tags, warnings) = content_tag_loop np warn ms in
      case content_tag_of np m of
        Some t \<Rightarrow> (t # tags, warnings)
      | None \<Rightarrow> (tags, warn (m_text m) # warnings))"

definition getDyadWriteTags ::
  "(string \<Rightarrow> string) \<Rightarrow> string \<Rightarrow> content_tag list \<times> parse_warning list" where
  "getDyadWriteTags np fullResponse =
     content_tag_loop np WriteWithoutPath
       (exec_all (match_tag_ci ''<dyad-write'' ''</dyad-write>'') 0 fullResponse)"

definition getDyadSearchReplaceTags ::
  "(string \<Rightarrow> string) \<Rightarrow> string \<Rightarrow> content_tag list \<times> parse_warning list" where
  "getDyadSearchReplaceTags np fullResponse =
     content_tag_loop np SearchReplaceWithoutPath
       (exec_all (match_tag_ci ''<dyad-search-replace'' ''</dyad-search-replace>'') 0
          fullResponse)"

text \<open>\<^verbatim>\<open>/<dyad-rename from="([^"]+)" to="([^"]+)"[^>]*>([\s\S]*?)<\/dyad-rename>/g\<close>\<close>

definition match_rename :: "string \<Rightarrow> ((string \<times> string) \<times> string) option" where
  "match_rename s =
     (case lit (''<dyad-rename from='' @ [dquote]) s of
        None \<Rightarrow> None
      | Some s1 \<Rightarrow>
          (case run1_then dquote s1 of
             None \<Rightarrow> None
           | Some (f, s2) \<Rightarrow>
               (case lit ('' to='' @ [dquote]) s2 of
                  None \<Rightarrow> None
                | Some s3 \<Rightarrow>
                    (case run1_then dquote s3 of
                       None \<Rightarrow> None
                     | Some (t, s4) \<Rightarrow>
                         (case run0_then (CHR ''>'') s4 of
                            None \<Rightarrow> None
                          | Some (_, s5) \<Rightarrow>
                              (case lazy_until ''</dyad-rename>'' s5 of
                                 None \<Rightarrow> None
                               | Some (_, rest) \<Rightarrow> Some ((f, t), rest)))))))"

definition getDyadRenameTags :: "(string \<Rightarrow> string) \<Rightarrow> string \<Rightarrow> rename_tag list" where
  "getDyadRenameTags np fullResponse =
     map (\<lambda>(f, t). \<lparr>rn_from = np f, rn_to = np t\<rparr>) (exec_all match_rename 0 fullResponse)"

text \<open>\<^verbatim>\<open>/<dyad-delete path="([^"]+)"[^>]*>([\s\S]*?)<\/dyad-delete>/g\<close>\<close>

definition match_delete :: "string \<Rightarrow> (string \<times> string) option" where
  "match_delete s =
     (case lit (''<dyad-delete path='' @ [dquote]) s of
        None \<Rightarrow> None
      | Some s1 \<Rightarrow>
          (case run1_then dquote s1 of
             None \<Rightarrow> None
           | Some (p, s2) \<Rightarrow>
               (case run0_then (CHR ''>'') s2 of
                  None \<Rightarrow> None
                | Some (_, s3) \<Rightarrow>
                    (case lazy_until ''</dyad-delete>'' s3 of
                       None \<Rightarrow> None
                     | Some (_, rest) \<Rightarrow> Some (p, rest)))))"

definition getDyadDeleteTags :: "(string \<Rightarrow> string) \<Rightarrow> string \<Rightarrow> string list" where
  "getDyadDeleteTags np fullResponse = map np (exec_all match_delete 0 fullResponse)"

text \<open>\<^verbatim>\<open>/<dyad-add-dependency packages="([^"]+)">[^<]*<\/dyad-add-dependency>/g\<close>\<close>

definition match_add_dependency :: "string \<Rightarrow> (string \<times> string) option" where
  "match_add_dependency s =
     (case lit (''<dyad-add-dependency packages='' @ [dquote]) s of
        None \<Rightarrow> None
      | Some s1 \<Rightarrow>
          (case run1_then dquote s1 of
             None \<Rightarrow> None
           | Some (pk, s2) \<Rightarrow>
               (case lit ''>'' s2 of
                  None \<Rightarrow> None
                | Some s3 \<Rightarrow>
                    (case lit ''</dyad-add-dependency>'' (dropWhile (\<lambda>c. c \<noteq> CHR ''<'') s3) of
                       None \<Rightarrow> None
                     | Some rest \<Rightarrow> Some (pk, rest)))))"

text \<open>\<^verbatim>\<open>packages.push(...match[1].split(" "))\<close> for every match.\<close>

definition getDyadAddDependencyTags :: "string \<Rightarrow> string list" where
  "getDyadAddDependencyTags fullResponse =
     concat (map (split_char CHR '' '') (exec_all match_add_dependency 0 fullResponse))"

text \<open>\<^verbatim>\<open>/<dyad-execute-sql([^>]*)>([\s\S]*?)<\/dyad-execute-sql>/g\<close>; every match is
  kept.\<close>

definition getDyadExecuteSqlTags :: "string \<Rightarrow> sql_query list" where
  "getDyadExecuteSqlTags fullResponse =
     map (\<lambda>m. \<lparr>sql_content = strip_fences (trim (m_body m)),
                sql_description = attr_regex ''description'' (m_attrs m)\<rparr>)
       (exec_all (match_tag ''<dyad-execute-sql'' ''</dyad-execute-sql>'') 0 fullResponse)"

text \<open>The markup of the tags, used to state properties of the parser on well-formed
  input: an add-dependency tag with its \<^verbatim>\<open>packages\<close> attribute, a response made of
  such tags with text in between, and a tag with an attribute string and a body.\<close>

definition add_dependency_markup :: "string \<Rightarrow> string \<Rightarrow> string" where
  "add_dependency_markup packages body =
     ''<dyad-add-dependency packages='' @ [dquote] @ packages @ [dquote] @ ''>'' @ body
       @ ''</dyad-add-dependency>''"

fun add_dependency_response :: "(string \<times> string \<times> string) list \<Rightarrow> string \<Rightarrow> string" where
  "add_dependency_response [] trailing = trailing"
| "add_dependency_response ((f, P, body) # ts) trailing =
     f @ add_dependency_markup P body @ add_dependency_response ts trailing"

definition content_markup :: "string \<Rightarrow> string \<Rightarrow> string \<Rightarrow> string" where
  "content_markup name attrs body =
     ''<'' @ name @ attrs @ ''>'' @ body @ ''</'' @ name @ ''>''"

section \<open>The compile-check caller\<close>

text \<open>
  \<^verbatim>\<open>generateProblemReport\<close> (\<^verbatim>\<open>tsc.ts\<close>) creates a worker, registers three
  listeners, posts the input and returns a promise. The promise and the worker are the
  state; what happens afterwards is a sequence of events. The passing of time is an event
  too: the function registers no timer, so no listener reacts to it.
\<close>

function show_nat :: "nat \<Rightarrow> string" where
  "show_nat n =
     (if n < 10 then [char_of (48 + n)]
      else show_nat (n div 10) @ [char_of (48 + n mod 10)])"
  by pat_completeness auto
termination
  by (relation "measure id") auto

declare show_nat.simps [simp del]

definition show_int :: "int \<Rightarrow> string" where
  "show_int i = (if i < 0 then ''-'' @ show_nat (nat (- i)) else show_nat (nat i))"

record 'r worker_output =
  wo_success :: bool
  wo_data :: "'r option"
  wo_error :: "string option"

datatype 'r worker_event =
  OnMessage "'r worker_output"
| OnError string
| OnExit int
| Elapsed nat

datatype 'r promise = Pending | Resolved 'r | Rejected string

record 'r tsc_call =
  report :: "'r promise"
  worker_terminated :: bool

text \<open>\<^verbatim>\<open>resolve\<close> and \<^verbatim>\<open>reject\<close> settle a pending promise and do nothing to a
  settled one.\<close>

definition resolve :: "'r \<Rightarrow> 'r tsc_call \<Rightarrow> 'r tsc_call" where
  "resolve d st = (case report st of Pending \<Rightarrow> st\<lparr>report := Resolved d\<rparr> | _ \<Rightarrow> st)"

definition reject :: "string \<Rightarrow> 'r tsc_call \<Rightarrow> 'r tsc_call" where
  "reject e st = (case report st of Pending \<Rightarrow> st\<lparr>report := Rejected e\<rparr> | _ \<Rightarrow> st)"

definition generateProblemReport_started :: "'r tsc_call" where
  "generateProblemReport_started = \<lparr>report = Pending, worker_terminated = False\<rparr>"

fun on_event :: "'r worker_event \<Rightarrow> 'r tsc_call \<Rightarrow> 'r tsc_call" where
  "on_event (OnMessage output) st =
     (let st1 = st\<lparr>worker_terminated := True\<rparr> in
      case wo_data output of
        Some d \<Rightarrow>
          if wo_success output then resolve d st1
          else reject (''Error: '' @ (case wo_error output of
                                        None \<Rightarrow> ''Unknown worker error''
                                      | Some e \<Rightarrow> if e = [] then ''Unknown worker error'' else e)) st1
      | None \<Rightarrow>
          reject (''Error: '' @ (case wo_error output of
                                   None \<Rightarrow> ''Unknown worker error''
                                 | Some e \<Rightarrow> if e = [] then ''Unknown worker error'' else e)) st1)"
| "on_event (OnError e) st = reject e (st\<lparr>worker_terminated := True\<rparr>)"
| "on_event (OnExit code) st =
     (if code \<noteq> 0 then reject (''Error: Worker exited with code '' @ show_int code) st else st)"
| "on_event (Elapsed ms) st = st"

definition generateProblemReport :: "'r worker_event list \<Rightarrow> 'r tsc_call" where
  "generateProblemReport events = fold on_event events generateProblemReport_started"

section \<open>The response processor: data\<close>

text \<open>
  The project tree is a flat map from full paths to nodes. A directory is a node of its
  own, and what lies below a directory \<open>d\<close> is every path that starts with \<open>d\<close> and a
  slash. The database holds the chats with their app and the messages.
\<close>

datatype node = File string | Dir

type_synonym filesys = "string \<rightharpoonup> node"

record app_row =
  app_id :: nat
  app_path :: string
  neonProjectId :: "string option"
  neonDevelopmentBranchId :: "string option"
  supabaseProjectId :: "string option"

record chat_row =
  chat_app :: "app_row option"

record message_row =
  msg_role :: string
  msg_chatId :: nat
  msg_content :: string
  msg_approvalState :: "string option"
  msg_commitHash :: "string option"

record file_upload =
  upload_filePath :: string
  upload_originalName :: string

text \<open>\<^verbatim>\<open>interface Output\<close>; a caught value is kept as the string it renders to.\<close>

record output_msg =
  out_message :: string
  out_error :: string

text \<open>\<^verbatim>\<open>applySearchReplace\<close> returns \<^verbatim>\<open>{ success, content?, error? }\<close>.\<close>

record sr_result =
  sr_success :: bool
  sr_content :: "string option"
  sr_error :: "string option"

text \<open>Every call to a collaborator outside the processor is recorded, in call order.\<close>

datatype call =
  StoreDbTimestampAtCurrentVersion nat
| ExecuteSupabaseSql "string option" string
| WriteMigrationFile string string "string option"
| Exec string string
| GitRemove string string
| GitAdd string string
| GitAddAll string
| GitCommit string string bool
| GetGitUncommittedFiles string
| DeleteSupabaseFunction "string option" string
| DeploySupabaseFunctions "string option" string string

datatype log_entry =
  LogWarn string
| LogError string
| LogParse parse_warning

text \<open>
  The state an invocation works on: the disk, the database, the pending uploads of every
  chat, the record of external calls and of logger warnings and errors, and the local
  arrays of \<^verbatim>\<open>processFullResponseActions\<close>.
\<close>

record pstate =
  disk :: filesys
  db_chats :: "nat \<rightharpoonup> chat_row"
  db_messages :: "nat \<rightharpoonup> message_row"
  uploadsByChat :: "nat \<rightharpoonup> (string \<rightharpoonup> file_upload)"
  calls :: "call list"
  logged :: "log_entry list"
  writtenFiles :: "string list"
  renamedFiles :: "string list"
  deletedFiles :: "string list"
  warnings :: "output_msg list"
  errors :: "output_msg list"

text \<open>
  The collaborators whose code is outside the processor are parameters. A function that
  can throw returns the rendering of the thrown value on the left. An external service
  sees the calls made so far, so its answer may depend on them; \<open>fails\<close> answers for
  the calls that return nothing. The two commands that write to the project tree
  (\<^verbatim>\<open>writeMigrationFile\<close> and the package manager run by \<^verbatim>\<open>execPromise\<close>) return
  the tree they leave behind.
\<close>

record env =
  normalizePath :: "string \<Rightarrow> string"
  safeJoin :: "string \<Rightarrow> string \<Rightarrow> string + string"
  getDyadAppPath :: "string \<Rightarrow> string"
  path_dirname :: "string \<Rightarrow> string"
  path_basename :: "string \<Rightarrow> string"
  path_extname :: "string \<Rightarrow> string"
  path_join :: "string \<Rightarrow> string \<Rightarrow> string"
  enableSupabaseWriteSqlMigration :: bool
  isServerFunction :: "string \<Rightarrow> bool"
  applySearchReplace :: "string \<Rightarrow> string \<Rightarrow> string + sr_result"
  replaceDependencyTag :: "string \<Rightarrow> string \<Rightarrow> string \<Rightarrow> string + string"
  fails :: "call list \<Rightarrow> call \<Rightarrow> string option"
  writeMigrationFile ::
    "call list \<Rightarrow> filesys \<Rightarrow> string \<Rightarrow> string \<Rightarrow> string option \<Rightarrow> (string + string) \<times> filesys"
  execPromise ::
    "call list \<Rightarrow> filesys \<Rightarrow> string \<Rightarrow> string \<Rightarrow> (string + string \<times> string) \<times> filesys"
  gitCommit :: "call list \<Rightarrow> string \<Rightarrow> string \<Rightarrow> bool \<Rightarrow> string + string"
  getGitUncommittedFiles :: "call list \<Rightarrow> string \<Rightarrow> string + string list"

text \<open>What the promise of \<^verbatim>\<open>processFullResponseActions\<close> settles to: the returned
  object, or a rejection with the rendering of the thrown value.\<close>

record presult =
  res_updatedFiles :: "bool option"
  res_error :: "string option"
  res_extraFiles :: "string list option"
  res_extraFilesError :: "string option"

datatype outcome = Returned presult | Thrown string

definition empty_result :: presult where
  "empty_result =
     \<lparr>res_updatedFiles = None, res_error = None, res_extraFiles = None,
       res_extraFilesError = None\<rparr>"

section \<open>File-system primitives\<close>

definition existsSync :: "filesys \<Rightarrow> string \<Rightarrow> bool" where
  "existsSync fs p = (fs p \<noteq> None)"

definition below :: "string \<Rightarrow> string \<Rightarrow> bool" where
  "below d q = prefix (d @ ''/'') q"

definition unlinkSync :: "filesys \<Rightarrow> string \<Rightarrow> filesys" where
  "unlinkSync fs p = fs(p := None)"

text \<open>\<^verbatim>\<open>fs.rmdirSync(p, { recursive: true })\<close>\<close>

definition rmdirSync :: "filesys \<Rightarrow> string \<Rightarrow> filesys" where
  "rmdirSync fs p = (\<lambda>q. if q = p \<or> below p q then None else fs q)"

text \<open>\<^verbatim>\<open>fs.mkdirSync(d, { recursive: true })\<close> fails where a file has the name.
  The map is flat: the node \<open>d\<close> alone is created, the directories above it are not
  modelled, and a file among them is not reported.\<close>

definition mkdirSync :: "filesys \<Rightarrow> string \<Rightarrow> string + filesys" where
  "mkdirSync fs d =
     (case fs d of
        Some (File _) \<Rightarrow> Inl (''Error: EEXIST: file already exists, mkdir '' @ d)
      | _ \<Rightarrow> Inr (fs(d \<mapsto> Dir)))"

text \<open>\<^verbatim>\<open>fs.renameSync\<close>: a file replaces a file; a directory moves with what lies below
  it, to a path that does not exist. An existing target of a directory is refused here
  also when it is an empty directory, which the system call would replace.\<close>

definition renameSync :: "filesys \<Rightarrow> string \<Rightarrow> string \<Rightarrow> string + filesys" where
  "renameSync fs src dst =
     (case fs src of
        None \<Rightarrow> Inl (''Error: ENOENT: no such file or directory, rename '' @ src)
      | Some (File c) \<Rightarrow>
          (case fs dst of
             Some Dir \<Rightarrow> Inl (''Error: EISDIR: illegal operation on a directory, rename '' @ src)
           | _ \<Rightarrow> Inr ((fs(src := None))(dst \<mapsto> File c)))
      | Some Dir \<Rightarrow>
          (case fs dst of
             Some _ \<Rightarrow> Inl (''Error: ENOTEMPTY: directory not empty, rename '' @ src)
           | None \<Rightarrow>
               Inr (\<lambda>q. if q = dst then Some Dir
                        else if below dst q then fs (src @ drop (length dst) q)
                        else if q = src \<or> below src q then None
                        else fs q)))"

definition writeFileSync :: "filesys \<Rightarrow> string \<Rightarrow> string \<Rightarrow> string + filesys" where
  "writeFileSync fs p c =
     (case fs p of
        Some Dir \<Rightarrow> Inl (''Error: EISDIR: illegal operation on a directory, open '' @ p)
      | _ \<Rightarrow> Inr (fs(p \<mapsto> File c)))"

definition readFile :: "filesys \<Rightarrow> string \<Rightarrow> string + string" where
  "readFile fs p =
     (case fs p of
        None \<Rightarrow> Inl (''Error: ENOENT: no such file or directory, open '' @ p)
      | Some Dir \<Rightarrow> Inl (''Error: EISDIR: illegal operation on a directory, read'')
      | Some (File c) \<Rightarrow> Inr c)"

section \<open>The response processor: steps\<close>

text \<open>A step returns the state it leaves and, when it throws, the rendering of the thrown
  value.\<close>

type_synonym step = "pstate \<Rightarrow> string option \<times> pstate"

definition andThen :: "step \<Rightarrow> step \<Rightarrow> step" where
  "andThen f g s = (case f s of (Some e, s') \<Rightarrow> (Some e, s') | (None, s') \<Rightarrow> g s')"

fun forEach :: "('a \<Rightarrow> step) \<Rightarrow> 'a list \<Rightarrow> step" where
  "forEach f [] s = (None, s)"
| "forEach f (x # xs) s =
     (case f x s of (Some e, s') \<Rightarrow> (Some e, s') | (None, s') \<Rightarrow> forEach f xs s')"

definition truthy :: "string option \<Rightarrow> bool" where
  "truthy v = (case v of None \<Rightarrow> False | Some x \<Rightarrow> x \<noteq> [])"

definition logger_warn :: "string \<Rightarrow> pstate \<Rightarrow> pstate" where
  "logger_warn m s = s\<lparr>logged := logged s @ [LogWarn m]\<rparr>"

definition logger_error :: "string \<Rightarrow> pstate \<Rightarrow> pstate" where
  "logger_error m s = s\<lparr>logged := logged s @ [LogError m]\<rparr>"

definition push_warning :: "string \<Rightarrow> string \<Rightarrow> pstate \<Rightarrow> pstate" where
  "push_warning m e s = s\<lparr>warnings := warnings s @ [\<lparr>out_message = m, out_error = e\<rparr>]\<rparr>"

definition push_error :: "string \<Rightarrow> string \<Rightarrow> pstate \<Rightarrow> pstate" where
  "push_error m e s = s\<lparr>errors := errors s @ [\<lparr>out_message = m, out_error = e\<rparr>]\<rparr>"

definition record_call :: "call \<Rightarrow> pstate \<Rightarrow> pstate" where
  "record_call c s = s\<lparr>calls := calls s @ [c]\<rparr>"

text \<open>A call that returns nothing: it is recorded, and it may throw.\<close>

definition external :: "env \<Rightarrow> call \<Rightarrow> step" where
  "external env c s = (fails env (calls s) c, record_call c s)"

text \<open>\<^verbatim>\<open>db.update(messages).set(...).where(eq(messages.id, id))\<close>\<close>

definition db_update :: "nat \<Rightarrow> (message_row \<Rightarrow> message_row) \<Rightarrow> pstate \<Rightarrow> pstate" where
  "db_update mid f s = s\<lparr>db_messages := (db_messages s)(mid := map_option f (db_messages s mid))\<rparr>"

text \<open>\<^verbatim>\<open>db.query.messages.findFirst\<close> by id, role and chat.\<close>

definition findMessage :: "pstate \<Rightarrow> nat \<Rightarrow> nat \<Rightarrow> message_row option" where
  "findMessage s messageId chatId =
     (case db_messages s messageId of
        None \<Rightarrow> None
      | Some m \<Rightarrow> if msg_role m = ''assistant'' \<and> msg_chatId m = chatId then Some m else None)"

definition getFunctionNameFromPath :: "env \<Rightarrow> string \<Rightarrow> string" where
  "getFunctionNameFromPath env input =
     path_basename env (if path_extname env input \<noteq> [] then path_dirname env input else input)"

definition readFileFromFunctionPath :: "env \<Rightarrow> filesys \<Rightarrow> string \<Rightarrow> string + string" where
  "readFileFromFunctionPath env fs input =
     (if path_extname env input = [] then readFile fs (path_join env input ''index.ts'')
      else readFile fs input)"

text \<open>The pre-step. Its \<^verbatim>\<open>throw\<close> stands before the \<^verbatim>\<open>try\<close> block.\<close>

definition neon_prestep :: "env \<Rightarrow> app_row \<Rightarrow> step" where
  "neon_prestep env app s =
     (if truthy (neonProjectId app) \<and> truthy (neonDevelopmentBranchId app) then
        (case external env (StoreDbTimestampAtCurrentVersion (app_id app)) s of
           (Some e, s') \<Rightarrow>
             (Some (''Error: Could not create Neon branch; database versioning functionality is not working: '' @ e),
              logger_error (''Error creating Neon branch at current version: '' @ e) s')
         | (None, s') \<Rightarrow> (None, s'))
      else (None, s))"

definition render_undefined :: "string option \<Rightarrow> string" where
  "render_undefined v = (case v of None \<Rightarrow> ''undefined'' | Some x \<Rightarrow> x)"

text \<open>One round of the loop over the SQL queries.\<close>

definition sql_step :: "env \<Rightarrow> app_row \<Rightarrow> string \<Rightarrow> sql_query \<Rightarrow> pstate \<Rightarrow> pstate" where
  "sql_step env app appPath query s =
     (case external env (ExecuteSupabaseSql (supabaseProjectId app) (sql_content query)) s of
        (Some e, s1) \<Rightarrow> push_error (''Failed to execute SQL query: '' @ sql_content query) e s1
      | (None, s1) \<Rightarrow>
          if enableSupabaseWriteSqlMigration env then
            (let s2 = record_call (WriteMigrationFile appPath (sql_content query)
                                     (sql_description query)) s1
             in case writeMigrationFile env (calls s1) (disk s1) appPath (sql_content query)
                       (sql_description query) of
                  (Inr migrationFilePath, fs') \<Rightarrow>
                    s2\<lparr>disk := fs', writtenFiles := writtenFiles s2 @ [migrationFilePath]\<rparr>
                | (Inl e, fs') \<Rightarrow>
                    push_error (''Failed to write SQL migration file for: ''
                                  @ render_undefined (sql_description query)) e (s2\<lparr>disk := fs'\<rparr>))
          else s1)"

text \<open>\<^verbatim>\<open>executeAddDependency\<close>: one shell command for the whole package list, then the
  stored content of the message is rewritten with its output.\<close>

definition install_command :: "string list \<Rightarrow> string" where
  "install_command packages =
     ''(pnpm add '' @ join '' '' packages @ '') || (npm install --legacy-peer-deps ''
       @ join '' '' packages @ '')''"

definition executeAddDependency ::
  "env \<Rightarrow> string list \<Rightarrow> nat \<Rightarrow> string \<Rightarrow> string \<Rightarrow> step" where
  "executeAddDependency env packages message_id message_content appPath s =
     (let s1 = record_call (Exec (install_command packages) appPath) s in
      case execPromise env (calls s) (disk s) (install_command packages) appPath of
        (Inl e, fs') \<Rightarrow> (Some e, s1\<lparr>disk := fs'\<rparr>)
      | (Inr (stdout, stderr), fs') \<Rightarrow>
          (let installResults = stdout @ (if stderr \<noteq> [] then ''\<newline>'' @ stderr else []) in
           case replaceDependencyTag env message_content (join '' '' packages) installResults of
             Inl e \<Rightarrow> (Some e, s1\<lparr>disk := fs'\<rparr>)
           | Inr updatedContent \<Rightarrow>
               (None, db_update message_id (\<lambda>m. m\<lparr>msg_content := updatedContent\<rparr>)
                        (s1\<lparr>disk := fs'\<rparr>))))"

definition note_lock_file :: "env \<Rightarrow> string \<Rightarrow> string \<Rightarrow> step" where
  "note_lock_file env appPath filename s =
     (case safeJoin env appPath filename of
        Inl e \<Rightarrow> (Some e, s)
      | Inr p \<Rightarrow>
          (None, if existsSync (disk s) p then s\<lparr>writtenFiles := writtenFiles s @ [filename]\<rparr>
                 else s))"

definition add_dependency_step ::
  "env \<Rightarrow> string list \<Rightarrow> nat \<Rightarrow> string \<Rightarrow> string \<Rightarrow> step" where
  "add_dependency_step env packages message_id message_content appPath s =
     (if packages \<noteq> [] then
        (let s1 = (case executeAddDependency env packages message_id message_content appPath s of
                     (Some e, s') \<Rightarrow>
                       push_error (''Failed to add dependencies: '' @ join '', '' packages) e s'
                   | (None, s') \<Rightarrow> s');
             s2 = s1\<lparr>writtenFiles := writtenFiles s1 @ [''package.json'']\<rparr>
         in andThen (note_lock_file env appPath ''pnpm-lock.yaml'')
                    (note_lock_file env appPath ''package-lock.json'') s2)
      else (None, s))"

text \<open>One round of the loop over the paths to delete.\<close>

definition delete_on_disk :: "env \<Rightarrow> string \<Rightarrow> string \<Rightarrow> string \<Rightarrow> pstate \<Rightarrow> pstate" where
  "delete_on_disk env appPath filePath fullFilePath s =
     (if existsSync (disk s) fullFilePath then
        (case external env (GitRemove appPath filePath)
                (s\<lparr>disk := (if disk s fullFilePath = Some Dir
                                 then rmdirSync (disk s) fullFilePath
                                 else unlinkSync (disk s) fullFilePath),
                    deletedFiles := deletedFiles s @ [filePath]\<rparr>) of
           (Some e, s') \<Rightarrow>
             logger_warn (''Failed to git remove deleted file '' @ filePath @ '': '' @ e) s'
         | (None, s') \<Rightarrow> s')
      else logger_warn (''File to delete does not exist: '' @ fullFilePath) s)"

definition delete_remote :: "env \<Rightarrow> app_row \<Rightarrow> string \<Rightarrow> pstate \<Rightarrow> pstate" where
  "delete_remote env app filePath s =
     (if isServerFunction env filePath then
        (case external env (DeleteSupabaseFunction (supabaseProjectId app)
                              (getFunctionNameFromPath env filePath)) s of
           (Some e, s') \<Rightarrow> push_error (''Failed to delete Supabase function: '' @ filePath) e s'
         | (None, s') \<Rightarrow> s')
      else s)"

definition delete_step :: "env \<Rightarrow> app_row \<Rightarrow> string \<Rightarrow> string \<Rightarrow> step" where
  "delete_step env app appPath filePath s =
     (case safeJoin env appPath filePath of
        Inl e \<Rightarrow> (Some e, s)
      | Inr fullFilePath \<Rightarrow>
          (None, delete_remote env app filePath
                   (delete_on_disk env appPath filePath fullFilePath s)))"

text \<open>One round of the loop over the rename tags. The \<^verbatim>\<open>gitAdd\<close> of the new path is
  not guarded; the \<^verbatim>\<open>gitRemove\<close> of the old one is.\<close>

definition rename_on_disk :: "env \<Rightarrow> string \<Rightarrow> rename_tag \<Rightarrow> string \<Rightarrow> string \<Rightarrow> step" where
  "rename_on_disk env appPath tag fromPath toPath s =
     (if existsSync (disk s) fromPath then
        (case renameSync (disk s) fromPath toPath of
           Inl e \<Rightarrow> (Some e, s)
         | Inr fs' \<Rightarrow>
             (case external env (GitAdd appPath (rn_to tag))
                     (s\<lparr>disk := fs', renamedFiles := renamedFiles s @ [rn_to tag]\<rparr>) of
                (Some e, s1) \<Rightarrow> (Some e, s1)
              | (None, s1) \<Rightarrow>
                  (case external env (GitRemove appPath (rn_from tag)) s1 of
                     (Some e, s2) \<Rightarrow>
                       (None, logger_warn (''Failed to git remove old file '' @ rn_from tag
                                             @ '': '' @ e) s2)
                   | (None, s2) \<Rightarrow> (None, s2))))
      else (None, logger_warn (''Source file for rename does not exist: '' @ fromPath) s))"

definition rename_remote_delete :: "env \<Rightarrow> app_row \<Rightarrow> rename_tag \<Rightarrow> pstate \<Rightarrow> pstate" where
  "rename_remote_delete env app tag s =
     (if isServerFunction env (rn_from tag) then
        (case external env (DeleteSupabaseFunction (supabaseProjectId app)
                              (getFunctionNameFromPath env (rn_from tag))) s of
           (Some e, s') \<Rightarrow>
             push_warning (''Failed to delete Supabase function: '' @ rn_from tag
                             @ '' as part of renaming '' @ rn_from tag @ '' to '' @ rn_to tag) e s'
         | (None, s') \<Rightarrow> s')
      else s)"

definition rename_remote_deploy ::
  "env \<Rightarrow> app_row \<Rightarrow> rename_tag \<Rightarrow> string \<Rightarrow> pstate \<Rightarrow> pstate" where
  "rename_remote_deploy env app tag toPath s =
     (if isServerFunction env (rn_to tag) then
        (case readFileFromFunctionPath env (disk s) toPath of
           Inl e \<Rightarrow>
             push_error (''Failed to deploy Supabase function: '' @ rn_to tag
                           @ '' as part of renaming '' @ rn_from tag @ '' to '' @ rn_to tag) e s
         | Inr content \<Rightarrow>
             (case external env (DeploySupabaseFunctions (supabaseProjectId app)
                                   (getFunctionNameFromPath env (rn_to tag)) content) s of
                (Some e, s') \<Rightarrow>
                  push_error (''Failed to deploy Supabase function: '' @ rn_to tag
                                @ '' as part of renaming '' @ rn_from tag @ '' to '' @ rn_to tag)
                    e s'
              | (None, s') \<Rightarrow> s'))
      else s)"

definition rename_remote :: "env \<Rightarrow> app_row \<Rightarrow> rename_tag \<Rightarrow> string \<Rightarrow> pstate \<Rightarrow> pstate" where
  "rename_remote env app tag toPath s =
     rename_remote_deploy env app tag toPath (rename_remote_delete env app tag s)"

definition rename_step :: "env \<Rightarrow> app_row \<Rightarrow> string \<Rightarrow> rename_tag \<Rightarrow> step" where
  "rename_step env app appPath tag s =
     (case safeJoin env appPath (rn_from tag) of
        Inl e \<Rightarrow> (Some e, s)
      | Inr fromPath \<Rightarrow>
          (case safeJoin env appPath (rn_to tag) of
             Inl e \<Rightarrow> (Some e, s)
           | Inr toPath \<Rightarrow>
               (case mkdirSync (disk s) (path_dirname env toPath) of
                  Inl e \<Rightarrow> (Some e, s)
                | Inr fs1 \<Rightarrow>
                    (case rename_on_disk env appPath tag fromPath toPath (s\<lparr>disk := fs1\<rparr>) of
                       (Some e, s1) \<Rightarrow> (Some e, s1)
                     | (None, s1) \<Rightarrow> (None, rename_remote env app tag toPath s1)))))"

text \<open>One round of the loop over the search-replace tags. Everything after the path is
  joined stands in a \<^verbatim>\<open>try\<close> whose \<^verbatim>\<open>catch\<close> pushes an error; the two
  \<^verbatim>\<open>continue\<close> statements only log.\<close>

definition search_replace_guarded ::
  "env \<Rightarrow> app_row \<Rightarrow> content_tag \<Rightarrow> string \<Rightarrow> step" where
  "search_replace_guarded env app tag fullFilePath s =
     (if \<not> existsSync (disk s) fullFilePath then
        (None, logger_warn (''Search-replace target file does not exist: '' @ tag_path tag) s)
      else
        (case readFile (disk s) fullFilePath of
           Inl e \<Rightarrow> (Some e, s)
         | Inr original \<Rightarrow>
             (case applySearchReplace env original (tag_content tag) of
                Inl e \<Rightarrow> (Some e, s)
              | Inr result \<Rightarrow>
                  (case (if sr_success result then sr_content result else None) of
                     None \<Rightarrow>
                       (None, logger_warn (''Failed to apply search-replace to '' @ tag_path tag
                                @ '': '' @ (case sr_error result of None \<Rightarrow> ''unknown''
                                            | Some e \<Rightarrow> e)) s)
                   | Some content \<Rightarrow>
                       (case writeFileSync (disk s) fullFilePath content of
                          Inl e \<Rightarrow> (Some e, s)
                        | Inr fs' \<Rightarrow>
                            (let s1 = s\<lparr>disk := fs',
                                         writtenFiles := writtenFiles s @ [tag_path tag]\<rparr>
                             in if isServerFunction env (tag_path tag) then
                                  (case external env
                                          (DeploySupabaseFunctions (supabaseProjectId app)
                                             (path_basename env (path_dirname env (tag_path tag)))
                                             content) s1 of
                                     (Some e, s2) \<Rightarrow>
                                       (None, push_error
                                          (''Failed to deploy Supabase function after search-replace: ''
                                             @ tag_path tag) e s2)
                                   | (None, s2) \<Rightarrow> (None, s2))
                                else (None, s1)))))))"

definition search_replace_step :: "env \<Rightarrow> app_row \<Rightarrow> string \<Rightarrow> content_tag \<Rightarrow> step" where
  "search_replace_step env app appPath tag s =
     (case safeJoin env appPath (tag_path tag) of
        Inl e \<Rightarrow> (Some e, s)
      | Inr fullFilePath \<Rightarrow>
          (case search_replace_guarded env app tag fullFilePath s of
             (Some e, s1) \<Rightarrow>
               (None, push_error (''Error applying search-replace to '' @ tag_path tag) e s1)
           | (None, s1) \<Rightarrow> (None, s1)))"

text \<open>One round of the loop over the write tags. A body that, trimmed, is the id of a
  pending upload of the chat is replaced by the uploaded file; the second component says
  whether the content is still the string of the tag.\<close>

definition upload_substitution ::
  "(string \<rightharpoonup> file_upload) option \<Rightarrow> content_tag \<Rightarrow> pstate \<Rightarrow> (string \<times> bool) \<times> pstate" where
  "upload_substitution fileUploadsMap tag s =
     (case fileUploadsMap of
        None \<Rightarrow> ((tag_content tag, True), s)
      | Some uploads \<Rightarrow>
          (case uploads (trim (tag_content tag)) of
             None \<Rightarrow> ((tag_content tag, True), s)
           | Some fileInfo \<Rightarrow>
               (case readFile (disk s) (upload_filePath fileInfo) of
                  Inr fileContent \<Rightarrow> ((fileContent, False), s)
                | Inl e \<Rightarrow>
                    ((tag_content tag, True),
                     push_error (''Failed to read uploaded file: '' @ upload_originalName fileInfo) e
                       (logger_error (''Failed to read uploaded file '' @ upload_originalName fileInfo
                                        @ '': '' @ e) s)))))"

definition write_step ::
  "env \<Rightarrow> app_row \<Rightarrow> string \<Rightarrow> (string \<rightharpoonup> file_upload) option \<Rightarrow> content_tag \<Rightarrow> step" where
  "write_step env app appPath fileUploadsMap tag s =
     (case safeJoin env appPath (tag_path tag) of
        Inl e \<Rightarrow> (Some e, s)
      | Inr fullFilePath \<Rightarrow>
          (case upload_substitution fileUploadsMap tag s of
             ((content, is_string), s1) \<Rightarrow>
               (case mkdirSync (disk s1) (path_dirname env fullFilePath) of
                  Inl e \<Rightarrow> (Some e, s1)
                | Inr fs1 \<Rightarrow>
                    (case writeFileSync fs1 fullFilePath content of
                       Inl e \<Rightarrow> (Some e, s1\<lparr>disk := fs1\<rparr>)
                     | Inr fs2 \<Rightarrow>
                         (let s2 = s1\<lparr>disk := fs2,
                                      writtenFiles := writtenFiles s1 @ [tag_path tag]\<rparr>
                          in if isServerFunction env (tag_path tag) \<and> is_string then
                               (case external env
                                       (DeploySupabaseFunctions (supabaseProjectId app)
                                          (path_basename env (path_dirname env (tag_path tag)))
                                          content) s2 of
                                  (Some e, s3) \<Rightarrow>
                                    (None, push_error (''Failed to deploy Supabase function: ''
                                                         @ tag_path tag) e s3)
                                | (None, s3) \<Rightarrow> (None, s3))
                             else (None, s2))))))"

text \<open>The commit, entered only with \<^verbatim>\<open>hasChanges\<close>. It returns the uncommitted files
  found after the first commit and the error of a failed amend.\<close>

definition hasChanges :: "string list \<Rightarrow> pstate \<Rightarrow> bool" where
  "hasChanges packages s =
     (writtenFiles s \<noteq> [] \<or> renamedFiles s \<noteq> [] \<or> deletedFiles s \<noteq> [] \<or> packages \<noteq> [])"

definition commit_message :: "string option \<Rightarrow> string list \<Rightarrow> nat \<Rightarrow> pstate \<Rightarrow> string" where
  "commit_message chatSummary packages sql_count s =
     (let changes =
            (if writtenFiles s \<noteq> []
             then [''wrote '' @ show_nat (length (writtenFiles s)) @ '' file(s)''] else [])
          @ (if renamedFiles s \<noteq> []
             then [''renamed '' @ show_nat (length (renamedFiles s)) @ '' file(s)''] else [])
          @ (if deletedFiles s \<noteq> []
             then [''deleted '' @ show_nat (length (deletedFiles s)) @ '' file(s)''] else [])
          @ (if packages \<noteq> []
             then [''added '' @ join '', '' packages @ '' package(s)''] else [])
          @ (if sql_count > 0
             then [''executed '' @ show_nat sql_count @ '' SQL queries''] else [])
      in case chatSummary of
           None \<Rightarrow> ''[dyad] '' @ join '', '' changes
         | Some summary \<Rightarrow>
             if summary \<noteq> [] then ''[dyad] '' @ summary @ '' - '' @ join '', '' changes
             else ''[dyad] '' @ join '', '' changes)"

definition amend_extra_files ::
  "env \<Rightarrow> string \<Rightarrow> string \<Rightarrow> string \<Rightarrow> string list
     \<Rightarrow> pstate \<Rightarrow> (string + string \<times> string option) \<times> pstate" where
  "amend_extra_files env appPath message commitHash uncommittedFiles s =
     (if uncommittedFiles \<noteq> [] then
        (case external env (GitAddAll appPath) s of
           (Some e, s1) \<Rightarrow> (Inl e, s1)
         | (None, s1) \<Rightarrow>
             (let amended = message @ '' + extra files edited outside of Dyad'';
                  s2 = record_call (GitCommit appPath amended True) s1
              in case gitCommit env (calls s1) appPath amended True of
                   Inr h \<Rightarrow> (Inr (h, None), s2)
                 | Inl e \<Rightarrow>
                     (Inr (commitHash, Some e),
                      logger_error (''Failed to commit changes outside of dyad: ''
                                      @ join '', '' uncommittedFiles) s2)))
      else (Inr (commitHash, None), s))"

definition commit_changes ::
  "env \<Rightarrow> string \<Rightarrow> string option \<Rightarrow> nat \<Rightarrow> string list \<Rightarrow> nat
     \<Rightarrow> pstate \<Rightarrow> (string + string list \<times> string option) \<times> pstate" where
  "commit_changes env appPath chatSummary messageId packages sql_count s =
     (if hasChanges packages s then
        (case forEach (\<lambda>file. external env (GitAdd appPath file)) (writtenFiles s) s of
           (Some e, s1) \<Rightarrow> (Inl e, s1)
         | (None, s1) \<Rightarrow>
             (let message = commit_message chatSummary packages sql_count s1;
                  s2 = record_call (GitCommit appPath message False) s1
              in case gitCommit env (calls s1) appPath message False of
                   Inl e \<Rightarrow> (Inl e, s2)
                 | Inr commitHash \<Rightarrow>
                     (let s3 = record_call (GetGitUncommittedFiles appPath) s2 in
                      case getGitUncommittedFiles env (calls s2) appPath of
                        Inl e \<Rightarrow> (Inl e, s3)
                      | Inr uncommittedFiles \<Rightarrow>
                          (case amend_extra_files env appPath message commitHash
                                  uncommittedFiles s3 of
                             (Inl e, s4) \<Rightarrow> (Inl e, s4)
                           | (Inr (h, extraFilesError), s4) \<Rightarrow>
                               (Inr (uncommittedFiles, extraFilesError),
                                db_update messageId (\<lambda>m. m\<lparr>msg_commitHash := Some h\<rparr>) s4)))))
      else (Inr ([], None), s))"

text \<open>The four file steps, in the order of the source: deletes, renames, search-replace
  edits, writes. The search-replace tags are parsed between the renames and the edits.\<close>

definition log_parse_warnings :: "parse_warning list \<Rightarrow> pstate \<Rightarrow> pstate" where
  "log_parse_warnings ws s = s\<lparr>logged := logged s @ map LogParse ws\<rparr>"

definition file_actions ::
  "env \<Rightarrow> string \<Rightarrow> app_row \<Rightarrow> string \<Rightarrow> (string \<rightharpoonup> file_upload) option
     \<Rightarrow> string list \<Rightarrow> rename_tag list \<Rightarrow> content_tag list \<Rightarrow> step" where
  "file_actions env fullResponse app appPath fileUploadsMap dyadDeletePaths dyadRenameTags
     dyadWriteTags =
     andThen (forEach (delete_step env app appPath) dyadDeletePaths)
      (andThen (forEach (rename_step env app appPath) dyadRenameTags)
        (andThen (\<lambda>s. (None, log_parse_warnings
                           (snd (getDyadSearchReplaceTags (normalizePath env) fullResponse)) s))
          (andThen (forEach (search_replace_step env app appPath)
                      (fst (getDyadSearchReplaceTags (normalizePath env) fullResponse)))
            (forEach (write_step env app appPath fileUploadsMap) dyadWriteTags))))"

text \<open>The body of the \<^verbatim>\<open>try\<close> block, in three parts: the actions from the SQL
  queries to the writes, the commit with the approval and the returned object, and the
  block itself, which parses the tags and looks the message up first. It gives the value
  the block returns, or on the left the value it throws.\<close>

definition run_actions ::
  "env \<Rightarrow> string \<Rightarrow> app_row \<Rightarrow> string \<Rightarrow> (string \<rightharpoonup> file_upload) option \<Rightarrow> nat
     \<Rightarrow> message_row \<Rightarrow> step" where
  "run_actions env fullResponse app appPath fileUploadsMap messageId message =
     (\<lambda>s. andThen
            (add_dependency_step env (getDyadAddDependencyTags fullResponse) messageId
               (msg_content message) appPath)
            (file_actions env fullResponse app appPath fileUploadsMap
               (getDyadDeleteTags (normalizePath env) fullResponse)
               (getDyadRenameTags (normalizePath env) fullResponse)
               (fst (getDyadWriteTags (normalizePath env) fullResponse)))
            (fold (sql_step env app appPath)
               (if truthy (supabaseProjectId app) then getDyadExecuteSqlTags fullResponse
                else []) s))"

definition commit_and_approve ::
  "env \<Rightarrow> string \<Rightarrow> string option \<Rightarrow> nat \<Rightarrow> string list \<Rightarrow> nat
     \<Rightarrow> pstate \<Rightarrow> (string + presult) \<times> pstate" where
  "commit_and_approve env appPath chatSummary messageId packages sql_count s =
     (case commit_changes env appPath chatSummary messageId packages sql_count s of
        (Inl e, s1) \<Rightarrow> (Inl e, s1)
      | (Inr (uncommittedFiles, extraFilesError), s1) \<Rightarrow>
          (Inr \<lparr>res_updatedFiles = Some (hasChanges packages s),
                res_error = None,
                res_extraFiles = (if uncommittedFiles \<noteq> [] then Some uncommittedFiles
                                  else None),
                res_extraFilesError = extraFilesError\<rparr>,
           db_update messageId (\<lambda>m. m\<lparr>msg_approvalState := Some ''approved''\<rparr>) s1))"

definition try_block ::
  "env \<Rightarrow> string \<Rightarrow> nat \<Rightarrow> string option \<Rightarrow> nat \<Rightarrow> app_row
     \<Rightarrow> (string \<rightharpoonup> file_upload) option \<Rightarrow> pstate \<Rightarrow> (string + presult) \<times> pstate" where
  "try_block env fullResponse chatId chatSummary messageId app fileUploadsMap s0 =
     (let appPath = getDyadAppPath env (app_path app);
          s1 = log_parse_warnings (snd (getDyadWriteTags (normalizePath env) fullResponse)) s0
      in case findMessage s1 messageId chatId of
           None \<Rightarrow>
             (Inr empty_result,
              logger_error (''No message found for ID: '' @ show_nat messageId) s1)
         | Some message \<Rightarrow>
             (case run_actions env fullResponse app appPath fileUploadsMap messageId message
                     s1 of
                (Some e, s2) \<Rightarrow> (Inl e, s2)
              | (None, s2) \<Rightarrow>
                  commit_and_approve env appPath chatSummary messageId
                    (getDyadAddDependencyTags fullResponse)
                    (length (if truthy (supabaseProjectId app)
                             then getDyadExecuteSqlTags fullResponse else []))
                    s2))"

text \<open>The \<^verbatim>\<open>finally\<close> block.\<close>

definition dyad_output :: "string \<Rightarrow> output_msg \<Rightarrow> string" where
  "dyad_output ty out =
     ''<dyad-output type='' @ [dquote] @ ty @ [dquote] @ '' message='' @ [dquote]
       @ out_message out @ [dquote] @ ''>'' @ out_error out @ ''</dyad-output>''"

definition appendedContent :: "output_msg list \<Rightarrow> output_msg list \<Rightarrow> string" where
  "appendedContent ws es =
     ''\<newline>    '' @ join ''\<newline>'' (map (dyad_output ''warning'') ws)
     @ ''\<newline>    '' @ join ''\<newline>'' (map (dyad_output ''error'') es)
     @ ''\<newline>    ''"

definition finally_block :: "string \<Rightarrow> nat \<Rightarrow> pstate \<Rightarrow> pstate" where
  "finally_block fullResponse messageId s =
     (if length (appendedContent (warnings s) (errors s)) > 0 then
        db_update messageId
          (\<lambda>m. m\<lparr>msg_content := fullResponse @ ''\<newline>\<newline>''
                                   @ appendedContent (warnings s) (errors s)\<rparr>) s
      else s)"

text \<open>The first lines of \<^verbatim>\<open>processFullResponseActions\<close>: the pending uploads of the
  chat are cleared from the registry (after the map was fetched), and the local arrays
  start empty.\<close>

definition begin_invocation :: "nat \<Rightarrow> pstate \<Rightarrow> pstate" where
  "begin_invocation chatId s0 =
     s0\<lparr>uploadsByChat := (uploadsByChat s0)(chatId := None),
        writtenFiles := [], renamedFiles := [], deletedFiles := [],
        warnings := [], errors := []\<rparr>"

text \<open>\<^verbatim>\<open>processFullResponseActions\<close>\<close>

definition processFullResponseActions ::
  "env \<Rightarrow> string \<Rightarrow> nat \<Rightarrow> string option \<Rightarrow> nat \<Rightarrow> pstate \<Rightarrow> outcome \<times> pstate" where
  "processFullResponseActions env fullResponse chatId chatSummary messageId s0 =
     (let fileUploadsMap = uploadsByChat s0 chatId;
          s1 = begin_invocation chatId s0
      in case (case db_chats s1 chatId of None \<Rightarrow> None | Some chat \<Rightarrow> chat_app chat) of
           None \<Rightarrow>
             (Returned empty_result,
              logger_error (''No app found for chat ID: '' @ show_nat chatId) s1)
         | Some app \<Rightarrow>
             (case neon_prestep env app s1 of
                (Some e, s2) \<Rightarrow> (Thrown e, s2)
              | (None, s2) \<Rightarrow>
                  (case try_block env fullResponse chatId chatSummary messageId app
                          fileUploadsMap s2 of
                     (Inr r, s3) \<Rightarrow> (Returned r, finally_block fullResponse messageId s3)
                   | (Inl e, s3) \<Rightarrow>
                       (Returned (empty_result\<lparr>res_error := Some e\<rparr>),
                        finally_block fullResponse messageId
                          (logger_error (''Error processing files: '' @ e) s3)))))"

section \<open>A small project\<close>

text \<open>
  One app \<^verbatim>\<open>demo\<close> under \<^verbatim>\<open>/apps\<close> with two files, one chat and one assistant
  message; collaborators that succeed, a git with nothing left uncommitted, and a patch
  engine that finds no match.
\<close>

definition demo_env :: env where
  "demo_env =
     \<lparr>normalizePath = (\<lambda>p. p),
      safeJoin = (\<lambda>base p. Inr (base @ ''/'' @ p)),
      getDyadAppPath = (\<lambda>p. ''/apps/'' @ p),
      path_dirname = (\<lambda>p. rev (drop 1 (dropWhile (\<lambda>c. c \<noteq> CHR ''/'') (rev p)))),
      path_basename = (\<lambda>p. rev (takeWhile (\<lambda>c. c \<noteq> CHR ''/'') (rev p))),
      path_extname = (\<lambda>p. []),
      path_join = (\<lambda>a b. a @ ''/'' @ b),
      enableSupabaseWriteSqlMigration = False,
      isServerFunction = (\<lambda>p. False),
      applySearchReplace =
        (\<lambda>original rules. Inr \<lparr>sr_success = False, sr_content = None,
                                  sr_error = Some ''no match''\<rparr>),
      replaceDependencyTag = (\<lambda>content packages results. Inr content),
      fails = (\<lambda>history c. None),
      writeMigrationFile = (\<lambda>history fs appPath content description. (Inl ''disabled'', fs)),
      execPromise = (\<lambda>history fs command cwd. (Inr ([], []), fs)),
      gitCommit = (\<lambda>history path message amend. Inr ''c0ffee''),
      getGitUncommittedFiles = (\<lambda>history path. Inr [])\<rparr>"

definition demo_app :: app_row where
  "demo_app =
     \<lparr>app_id = 1, app_path = ''demo'', neonProjectId = None, neonDevelopmentBranchId = None,
      supabaseProjectId = None\<rparr>"

definition demo_message :: message_row where
  "demo_message =
     \<lparr>msg_role = ''assistant'', msg_chatId = 1, msg_content = ''streamed'',
      msg_approvalState = None, msg_commitHash = None\<rparr>"

definition demo_state :: pstate where
  "demo_state =
     \<lparr>disk = [''/apps/demo'' \<mapsto> Dir,
              ''/apps/demo/old.ts'' \<mapsto> File ''export const x = 0;'',
              ''/apps/demo/b.ts'' \<mapsto> File ''export const b = 2;''],
      db_chats = [1 \<mapsto> \<lparr>chat_app = Some demo_app\<rparr>],
      db_messages = [7 \<mapsto> demo_message],
      uploadsByChat = Map.empty,
      calls = [], logged = [], writtenFiles = [], renamedFiles = [], deletedFiles = [],
      warnings = [], errors = []\<rparr>"

text \<open>The response of the end-to-end scenario: delete \<^verbatim>\<open>old.ts\<close>, rename
  \<^verbatim>\<open>b.ts\<close> to \<^verbatim>\<open>old.ts\<close>, write \<^verbatim>\<open>old.ts\<close>.\<close>

definition demo_response :: string where
  "demo_response =
     ''<dyad-delete path='' @ [dquote] @ ''old.ts'' @ [dquote] @ ''></dyad-delete>''
     @ ''<dyad-rename from='' @ [dquote] @ ''b.ts'' @ [dquote] @ '' to='' @ [dquote]
     @ ''old.ts'' @ [dquote] @ ''></dyad-rename>''
     @ ''<dyad-write path='' @ [dquote] @ ''old.ts'' @ [dquote]
     @ ''>export const x = 1;</dyad-write>''"

section \<open>Notions used in the statements\<close>

text \<open>The attribute string of a tag holds a path: \<^verbatim>\<open>path="v"\<close> occurs in it at some
  position, with a non-empty value \<open>v\<close> that has no double quote.\<close>

definition has_path_value :: "string \<Rightarrow> bool" where
  "has_path_value attrs =
     (\<exists>u v t. attrs = u @ ''path='' @ [dquote] @ v @ [dquote] @ t \<and> v \<noteq> []
                \<and> dquote \<notin> set v)"

text \<open>The ids of the stored messages.\<close>

definition msg_ids :: "pstate \<Rightarrow> nat set" where
  "msg_ids s = dom (db_messages s)"

text \<open>The rendering of the error thrown by the pre-step.\<close>

definition neon_error :: "string \<Rightarrow> string" where
  "neon_error e =
     ''Error: Could not create Neon branch; database versioning functionality is not working: '' @ e"

text \<open>The small project with an attached database branch, and a snapshot service that is
  down.\<close>

definition demo_neon_state :: pstate where
  "demo_neon_state =
     demo_state\<lparr>db_chats :=
       [1 \<mapsto> \<lparr>chat_app = Some (demo_app\<lparr>neonProjectId := Some ''np'',
                                          neonDevelopmentBranchId := Some ''br''\<rparr>)\<rparr>]\<rparr>"

definition demo_neon_down :: env where
  "demo_neon_down =
     demo_env\<lparr>fails := (\<lambda>history c. case c of
                             StoreDbTimestampAtCurrentVersion _ \<Rightarrow> Some ''Error: timeout''
                           | _ \<Rightarrow> None)\<rparr>"

text \<open>What the search-replace loop logs when it skips a tag.\<close>

definition search_replace_warning :: "filesys \<Rightarrow> string \<Rightarrow> content_tag \<Rightarrow> sr_result \<Rightarrow> string" where
  "search_replace_warning fs fullFilePath tag result =
     (if fs fullFilePath = None
      then ''Search-replace target file does not exist: '' @ tag_path tag
      else ''Failed to apply search-replace to '' @ tag_path tag @ '': ''
           @ (case sr_error result of None \<Rightarrow> ''unknown'' | Some e \<Rightarrow> e))"

text \<open>The recorded calls of one kind, and the kinds the statements speak about: the run of
  the package manager, the commits, and every call to git.\<close>

definition calls_where :: "(call \<Rightarrow> bool) \<Rightarrow> pstate \<Rightarrow> call list" where
  "calls_where P s = filter P (calls s)"

fun is_exec :: "call \<Rightarrow> bool" where
  "is_exec (Exec command cwd) = True"
| "is_exec _ = False"

fun is_commit :: "call \<Rightarrow> bool" where
  "is_commit (GitCommit path message amend) = True"
| "is_commit _ = False"

fun is_git :: "call \<Rightarrow> bool" where
  "is_git (GitRemove path file) = True"
| "is_git (GitAdd path file) = True"
| "is_git (GitAddAll path) = True"
| "is_git (GitCommit path message amend) = True"
| "is_git (GetGitUncommittedFiles path) = True"
| "is_git _ = False"

text \<open>An invocation is quiet while its three arrays of changed files are empty. The commit
  ids stored with the messages. The relation between two states of one invocation: if
  the later one is still quiet, so was the earlier one, and no call to git and no change
  of a stored commit id lies between them.\<close>

definition quiet :: "pstate \<Rightarrow> bool" where
  "quiet s = (writtenFiles s = [] \<and> renamedFiles s = [] \<and> deletedFiles s = [])"

definition commit_hashes :: "pstate \<Rightarrow> nat \<Rightarrow> string option option" where
  "commit_hashes s = (\<lambda>i. map_option msg_commitHash (db_messages s i))"

definition no_git_since :: "pstate \<Rightarrow> pstate \<Rightarrow> bool" where
  "no_git_since s s' =
     (quiet s' \<longrightarrow>
        quiet s \<and> calls_where is_git s' = calls_where is_git s
        \<and> commit_hashes s' = commit_hashes s)"

text \<open>A response whose only action changes nothing: the file to delete does not
  exist.\<close>

definition demo_quiet_response :: string where
  "demo_quiet_response =
     ''<dyad-delete path='' @ [dquote] @ ''no.ts'' @ [dquote] @ ''></dyad-delete>''"

text \<open>A git whose working tree has a file edited outside the processor and whose amend
  fails, and a response that writes one file.\<close>

definition demo_amend_fails :: env where
  "demo_amend_fails =
     demo_env\<lparr>getGitUncommittedFiles := (\<lambda>history path. Inr [''notes.txt'']),
               gitCommit := (\<lambda>history path message amend.
                               if amend then Inl ''Error: amend failed'' else Inr ''c0ffee'')\<rparr>"

definition demo_write_response :: string where
  "demo_write_response =
     ''<dyad-write path='' @ [dquote] @ ''a.ts'' @ [dquote] @ ''>x</dyad-write>''"

text \<open>The result returned when the amend fails.\<close>

definition amend_failed_result :: "string list \<Rightarrow> string \<Rightarrow> presult" where
  "amend_failed_result extra err =
     \<lparr>res_updatedFiles = Some True, res_error = None, res_extraFiles = Some extra,
      res_extraFilesError = Some err\<rparr>"

text \<open>Two project trees have the same shape when they have the same paths and the same
  directories.\<close>

definition same_shape :: "filesys \<Rightarrow> filesys \<Rightarrow> bool" where
  "same_shape fs fs' =
     (\<forall>p. (fs' p = None) = (fs p = None) \<and> (fs' p = Some Dir) = (fs p = Some Dir))"

text \<open>The kind of a node: none, a directory or a regular file. A collaborator that writes
  to the project tree (the package manager, the migration writer) keeps the kind of a
  path when no run of it creates or removes the path or turns a file into a directory or
  back; the content of a file may change.\<close>

definition same_kind :: "node option \<Rightarrow> node option \<Rightarrow> bool" where
  "same_kind x y = ((y = None) = (x = None) \<and> (y = Some Dir) = (x = Some Dir))"






section \<open>Lemmas on strings and matching\<close>

lemma split_char_nonempty: "split_char d s \<noteq> []"
  by (induction s) (auto split: list.splits)

lemma split_char_no_sep: "d \<notin> set n \<Longrightarrow> split_char d n = [n]"
  by (induction n) auto

lemma split_char_append_sep:
  "d \<notin> set n \<Longrightarrow> split_char d (n @ d # s) = n # split_char d s"
  by (induction n) auto

lemma split_char_join:
  "names \<noteq> [] \<Longrightarrow> \<forall>n \<in> set names. d \<notin> set n \<Longrightarrow> split_char d (join [d] names) = names"
proof (induction "[d]" names rule: join.induct)
  case 1
  then show ?case by simp
next
  case (2 x)
  then show ?case by (simp add: split_char_no_sep)
next
  case (3 x y ys)
  then show ?case by (simp add: split_char_append_sep)
qed

lemma lit_append: "lit p (p @ s) = Some s"
  by (simp add: lit_def)

lemma ci_prefix_refl_append: "ci_prefix p (p @ s)"
  by (induction p) auto

lemma lit_ci_append: "lit_ci p (p @ s) = Some s"
  by (simp add: lit_ci_def ci_prefix_refl_append)

lemma takeWhile_until: "x \<notin> set v \<Longrightarrow> takeWhile (\<lambda>c. c \<noteq> x) (v @ x # r) = v"
  by (induction v) auto

lemma dropWhile_until: "x \<notin> set v \<Longrightarrow> dropWhile (\<lambda>c. c \<noteq> x) (v @ x # r) = x # r"
  by (induction v) auto

lemma run1_then_append:
  "x \<notin> set v \<Longrightarrow> v \<noteq> [] \<Longrightarrow> run1_then x (v @ x # r) = Some (v, r)"
  by (simp add: run1_then_def takeWhile_until dropWhile_until)

lemma run0_then_append:
  "x \<notin> set v \<Longrightarrow> run0_then x (v @ x # r) = Some (v, r)"
  by (simp add: run0_then_def takeWhile_until dropWhile_until)

lemma exec_all_skip: "exec_all m (length xs) (xs @ rest) = exec_all m 0 rest"
  by (induction xs) auto

lemma exec_all_match:
  assumes "m (t @ rest) = Some (x, rest)" and "t \<noteq> []"
  shows "exec_all m 0 (t @ rest) = x # exec_all m 0 rest"
proof -
  obtain c cs where t: "t = c # cs" using assms(2) by (cases t) auto
  have "exec_all m 0 (t @ rest) = x # exec_all m (length cs) (cs @ rest)"
    using assms(1) by (simp add: t)
  then show ?thesis by (simp add: exec_all_skip)
qed

lemma exec_all_no_match:
  "\<forall>k < length f. m (drop k f @ s) = None \<Longrightarrow> exec_all m 0 (f @ s) = exec_all m 0 s"
proof (induction f)
  case Nil
  then show ?case by simp
next
  case (Cons c f)
  have "m ((c # f) @ s) = None" using Cons.prems by (metis drop0 length_greater_0_conv list.discI)
  moreover have "\<forall>k < length f. m (drop k f @ s) = None"
  proof (intro allI impI)
    fix k assume "k < length f"
    then have "Suc k < length (c # f)" by simp
    then have "m (drop (Suc k) (c # f) @ s) = None" using Cons.prems by blast
    then show "m (drop k f @ s) = None" by simp
  qed
  ultimately show ?case using Cons.IH by simp
qed

lemma match_add_dependency_markup:
  assumes "dquote \<notin> set P" and "P \<noteq> []" and "CHR ''<'' \<notin> set body"
  shows "match_add_dependency (add_dependency_markup P body @ rest) = Some (P, rest)"
proof -
  have a: "lit (''<dyad-add-dependency packages='' @ [dquote])
             (add_dependency_markup P body @ rest)
           = Some (P @ dquote # (''>'' @ body @ ''</dyad-add-dependency>'' @ rest))"
    unfolding add_dependency_markup_def lit_def by simp
  have b: "run1_then dquote (P @ dquote # (''>'' @ body @ ''</dyad-add-dependency>'' @ rest))
           = Some (P, ''>'' @ body @ ''</dyad-add-dependency>'' @ rest)"
    using assms(1,2) by (rule run1_then_append)
  have c: "lit ''>'' (''>'' @ body @ ''</dyad-add-dependency>'' @ rest)
           = Some (body @ ''</dyad-add-dependency>'' @ rest)"
    by (rule lit_append)
  have d: "dropWhile (\<lambda>c. c \<noteq> CHR ''<'') (body @ ''</dyad-add-dependency>'' @ rest)
           = ''</dyad-add-dependency>'' @ rest"
    using dropWhile_until [OF assms(3), of "''/dyad-add-dependency>'' @ rest"] by simp
  have e: "lit ''</dyad-add-dependency>'' (''</dyad-add-dependency>'' @ rest) = Some rest"
    by (rule lit_append)
  show ?thesis
    unfolding match_add_dependency_def a option.case b prod.case c d e ..
qed

lemma match_add_dependency_head:
  "c \<noteq> CHR ''<'' \<Longrightarrow> match_add_dependency (c # cs) = None"
  by (simp add: match_add_dependency_def lit_def)

lemma exec_all_add_dependency_filler:
  assumes "CHR ''<'' \<notin> set f"
  shows "exec_all match_add_dependency 0 (f @ s) = exec_all match_add_dependency 0 s"
proof (rule exec_all_no_match, intro allI impI)
  fix k assume k: "k < length f"
  then obtain c cs where d: "drop k f = c # cs" by (cases "drop k f") auto
  then have "c \<in> set f" by (metis in_set_dropD list.set_intros(1))
  then have "c \<noteq> CHR ''<''" using assms by auto
  then show "match_add_dependency (drop k f @ s) = None"
    by (simp add: d match_add_dependency_head)
qed

lemma add_dependency_markup_nonempty: "add_dependency_markup P body \<noteq> []"
  by (simp add: add_dependency_markup_def)

lemma exec_all_add_dependency_step:
  assumes "CHR ''<'' \<notin> set f" and "dquote \<notin> set P" and "P \<noteq> []" and "CHR ''<'' \<notin> set body"
  shows "exec_all match_add_dependency 0 (f @ add_dependency_markup P body @ rest)
         = P # exec_all match_add_dependency 0 rest"
  using assms
  by (simp add: exec_all_add_dependency_filler exec_all_match
        match_add_dependency_markup add_dependency_markup_nonempty)

lemma exec_all_add_dependency_response:
  assumes "\<forall>(f, P, body) \<in> set ts.
             CHR ''<'' \<notin> set f \<and> dquote \<notin> set P \<and> P \<noteq> [] \<and> CHR ''<'' \<notin> set body"
    and "CHR ''<'' \<notin> set trailing"
  shows "exec_all match_add_dependency 0 (add_dependency_response ts trailing)
         = map (\<lambda>(f, P, body). P) ts"
  using assms
proof (induction ts)
  case Nil
  then show ?case
    using exec_all_add_dependency_filler [of trailing "[]"] by simp
next
  case (Cons t ts)
  obtain f P body where t: "t = (f, P, body)" by (cases t) auto
  show ?case using Cons by (simp add: t exec_all_add_dependency_step)
qed

lemma ci_prefix_take:
  "ci_prefix p s = (length p \<le> length s \<and> map upcase p = map upcase (take (length p) s))"
proof (induction p s rule: ci_prefix.induct)
qed auto

lemma ci_prefix_append_long:
  "length p \<le> length a \<Longrightarrow> ci_prefix p (a @ r) = ci_prefix p a"
  by (simp add: ci_prefix_take)

lemma lazy_until_ci_unfold:
  "lazy_until_ci cls s =
     (if ci_prefix cls s then Some ([], drop (length cls) s)
      else (case s of [] \<Rightarrow> None
            | c # cs \<Rightarrow> map_option (\<lambda>(b, r). (c # b, r)) (lazy_until_ci cls cs)))"
  by (cases s; cases cls) auto

lemma lazy_until_ci_rest:
  "lazy_until_ci cls (body @ cls) = Some (body, []) \<Longrightarrow>
   lazy_until_ci cls (body @ cls @ rest) = Some (body, rest)"
proof (induction body)
  case Nil
  show ?case
    by (subst lazy_until_ci_unfold) (simp add: ci_prefix_refl_append)
next
  case (Cons c b)
  have n: "\<not> ci_prefix cls (c # b @ cls)"
    using Cons.prems by (subst (asm) lazy_until_ci_unfold) (auto split: if_splits)
  then have h: "lazy_until_ci cls (b @ cls) = Some (b, [])"
    using Cons.prems by (subst (asm) lazy_until_ci_unfold) auto
  have n': "\<not> ci_prefix cls ((c # b @ cls) @ rest)"
    using n by (subst ci_prefix_append_long) auto
  show ?case
    using n' Cons.IH [OF h] by (subst lazy_until_ci_unfold) simp
qed

lemma match_tag_ci_markup:
  assumes "CHR ''>'' \<notin> set attrs"
    and "lazy_until_ci cls (body @ cls) = Some (body, [])"
  shows "match_tag_ci opn cls ((opn @ attrs @ ''>'' @ body @ cls) @ rest)
         = Some (\<lparr>m_text = opn @ attrs @ ''>'' @ body @ cls, m_attrs = attrs, m_body = body\<rparr>,
                 rest)"
proof -
  have a: "lit_ci opn ((opn @ attrs @ ''>'' @ body @ cls) @ rest)
           = Some (attrs @ CHR ''>'' # (body @ cls @ rest))"
    using lit_ci_append [of opn "attrs @ CHR ''>'' # (body @ cls @ rest)"] by simp
  have b: "run0_then (CHR ''>'') (attrs @ CHR ''>'' # (body @ cls @ rest))
           = Some (attrs, body @ cls @ rest)"
    using assms(1) by (rule run0_then_append)
  have c: "lazy_until_ci cls (body @ cls @ rest) = Some (body, rest)"
    using assms(2) by (rule lazy_until_ci_rest)
  have d: "take (length ((opn @ attrs @ ''>'' @ body @ cls) @ rest) - length rest)
             ((opn @ attrs @ ''>'' @ body @ cls) @ rest) = opn @ attrs @ ''>'' @ body @ cls"
    by simp
  show ?thesis
    unfolding match_tag_ci_def a option.case b prod.case c d ..
qed

lemma content_tag_loop_missing_path:
  assumes "attr_regex ''path'' (m_attrs m) = None"
  shows "content_tag_loop np warn (m # ms)
         = (fst (content_tag_loop np warn ms), warn (m_text m) # snd (content_tag_loop np warn ms))"
  using assms by (simp add: content_tag_of_def split: prod.splits)

text \<open>The attribute expression, read as a statement on the attribute string.\<close>

lemma run1_then_Some:
  "run1_then x s = Some (v, r) \<longleftrightarrow> (s = v @ x # r \<and> v \<noteq> [] \<and> x \<notin> set v)"
proof
  assume a: "run1_then x s = Some (v, r)"
  obtain y r' where d: "dropWhile (\<lambda>c. c \<noteq> x) s = y # r'"
    using a by (cases "dropWhile (\<lambda>c. c \<noteq> x) s") (auto simp: run1_then_def)
  have v: "v = takeWhile (\<lambda>c. c \<noteq> x) s" "r = r'" "v \<noteq> []"
    using a d by (auto simp: run1_then_def Let_def split: if_splits)
  have y: "y = x" using d by (metis (mono_tags, lifting) dropWhile_eq_Cons_conv)
  have "s = takeWhile (\<lambda>c. c \<noteq> x) s @ dropWhile (\<lambda>c. c \<noteq> x) s" by simp
  then have "s = v @ x # r" using v d y by simp
  moreover have "x \<notin> set v" unfolding v(1) using set_takeWhileD [of x "\<lambda>c. c \<noteq> x" s] by auto
  ultimately show "s = v @ x # r \<and> v \<noteq> [] \<and> x \<notin> set v" using v(3) by simp
next
  assume "s = v @ x # r \<and> v \<noteq> [] \<and> x \<notin> set v"
  then show "run1_then x s = Some (v, r)" by (simp add: run1_then_append)
qed

lemma attr_at_Some:
  "attr_at name s = Some v \<longleftrightarrow>
     (\<exists>t. s = name @ [CHR ''='', dquote] @ v @ [dquote] @ t \<and> v \<noteq> [] \<and> dquote \<notin> set v)"
proof
  assume a: "attr_at name s = Some v"
  then obtain s1 where l: "lit (name @ [CHR ''='', dquote]) s = Some s1"
    by (auto simp: attr_at_def split: option.splits)
  then have s: "s = (name @ [CHR ''='', dquote]) @ s1"
    by (auto simp: lit_def prefix_def split: if_splits)
  obtain r where "run1_then dquote s1 = Some (v, r)"
    using a l by (auto simp: attr_at_def)
  then have "s1 = v @ dquote # r \<and> v \<noteq> [] \<and> dquote \<notin> set v" by (simp add: run1_then_Some)
  then show "\<exists>t. s = name @ [CHR ''='', dquote] @ v @ [dquote] @ t \<and> v \<noteq> [] \<and> dquote \<notin> set v"
    using s by auto
next
  assume "\<exists>t. s = name @ [CHR ''='', dquote] @ v @ [dquote] @ t \<and> v \<noteq> [] \<and> dquote \<notin> set v"
  then obtain t where s: "s = (name @ [CHR ''='', dquote]) @ (v @ dquote # t)"
    and v: "v \<noteq> []" "dquote \<notin> set v" by auto
  show "attr_at name s = Some v"
    unfolding attr_at_def s lit_append using v by (simp add: run1_then_append)
qed

lemma exec_first_Some:
  "(\<exists>x. exec_first m s = Some x) \<longleftrightarrow> (\<exists>u t x. s = u @ t \<and> t \<noteq> [] \<and> m t = Some x)"
proof (induction s)
  case Nil
  then show ?case by simp
next
  case (Cons c cs)
  show ?case
  proof (cases "m (c # cs)")
    case (Some x)
    then have "\<exists>u t x. c # cs = u @ t \<and> t \<noteq> [] \<and> m t = Some x"
      by (intro exI [of _ "[]"] exI [of _ "c # cs"] exI [of _ x]) simp
    then show ?thesis using Some by simp
  next
    case None
    have "(\<exists>u t x. c # cs = u @ t \<and> t \<noteq> [] \<and> m t = Some x)
          \<longleftrightarrow> (\<exists>u t x. cs = u @ t \<and> t \<noteq> [] \<and> m t = Some x)"
    proof
      assume "\<exists>u t x. c # cs = u @ t \<and> t \<noteq> [] \<and> m t = Some x"
      then obtain u t x where h: "c # cs = u @ t" "t \<noteq> []" "m t = Some x" by blast
      show "\<exists>u t x. cs = u @ t \<and> t \<noteq> [] \<and> m t = Some x"
      proof (cases u)
        case Nil
        then show ?thesis using h None by simp
      next
        case (Cons a u')
        then have "cs = u' @ t" using h by simp
        then show ?thesis using h by blast
      qed
    next
      assume "\<exists>u t x. cs = u @ t \<and> t \<noteq> [] \<and> m t = Some x"
      then obtain u t x where h: "cs = u @ t" "t \<noteq> []" "m t = Some x" by blast
      then have "c # cs = (c # u) @ t" by simp
      then show "\<exists>u t x. c # cs = u @ t \<and> t \<noteq> [] \<and> m t = Some x" using h by blast
    qed
    then show ?thesis using None Cons.IH by simp
  qed
qed

lemma attr_regex_path_iff: "attr_regex ''path'' attrs \<noteq> None \<longleftrightarrow> has_path_value attrs"
proof -
  have "attr_regex ''path'' attrs \<noteq> None \<longleftrightarrow> (\<exists>x. exec_first (attr_at ''path'') attrs = Some x)"
    by (simp add: attr_regex_def)
  also have "\<dots> \<longleftrightarrow> (\<exists>u t x. attrs = u @ t \<and> t \<noteq> [] \<and> attr_at ''path'' t = Some x)"
    by (rule exec_first_Some)
  also have "\<dots> \<longleftrightarrow> has_path_value attrs"
    unfolding has_path_value_def attr_at_Some by auto
  finally show ?thesis .
qed

lemma attr_regex_path_None: "attr_regex ''path'' attrs = None \<longleftrightarrow> \<not> has_path_value attrs"
  using attr_regex_path_iff [of attrs] by blast

text \<open>A match of a tag expression is not empty, and text without \<^verbatim>\<open><\<close> holds no
  match.\<close>

lemma lit_ci_length: "lit_ci p s = Some s1 \<Longrightarrow> length s1 \<le> length s"
  by (auto simp: lit_ci_def split: if_splits)

lemma run0_then_length: "run0_then x s = Some (v, r) \<Longrightarrow> length r < length s"
proof -
  assume a: "run0_then x s = Some (v, r)"
  then obtain y where d: "dropWhile (\<lambda>c. c \<noteq> x) s = y # r"
    by (cases "dropWhile (\<lambda>c. c \<noteq> x) s") (auto simp: run0_then_def)
  have "length (dropWhile (\<lambda>c. c \<noteq> x) s) \<le> length s" by (rule length_dropWhile_le)
  then show ?thesis by (simp add: d)
qed

lemma lazy_until_ci_length: "lazy_until_ci cls s = Some (b, r) \<Longrightarrow> length r \<le> length s"
proof (induction s arbitrary: b)
  case Nil
  then show ?case by (simp split: if_splits)
next
  case (Cons c cs)
  show ?case
  proof (cases "ci_prefix cls (c # cs)")
    case True
    then show ?thesis using Cons.prems by auto
  next
    case False
    then obtain b' where "lazy_until_ci cls cs = Some (b', r)"
      using Cons.prems by auto
    then have "length r \<le> length cs" by (rule Cons.IH)
    then show ?thesis by simp
  qed
qed

lemma match_tag_ci_progress:
  assumes "match_tag_ci opn cls s = Some (m, r)"
  shows "length r < length s"
proof -
  obtain s1 where a: "lit_ci opn s = Some s1"
    using assms by (auto simp: match_tag_ci_def split: option.splits)
  obtain attrs s2 where b: "run0_then (CHR ''>'') s1 = Some (attrs, s2)"
    using assms a by (auto simp: match_tag_ci_def split: option.splits)
  obtain body where c: "lazy_until_ci cls s2 = Some (body, r)"
    using assms a b by (auto simp: match_tag_ci_def split: option.splits)
  show ?thesis
    using lit_ci_length [OF a] run0_then_length [OF b] lazy_until_ci_length [OF c] by simp
qed

lemma content_tag_of_None: "content_tag_of np m = None \<longleftrightarrow> \<not> has_path_value (m_attrs m)"
  using attr_regex_path_None [of "m_attrs m"]
  by (auto simp: content_tag_of_def Let_def split: option.splits)

lemma content_tag_loop_eq:
  "content_tag_loop np warn ms
   = (List.map_filter (content_tag_of np) ms,
      map (\<lambda>m. warn (m_text m)) (filter (\<lambda>m. \<not> has_path_value (m_attrs m)) ms))"
proof (induction ms)
  case Nil
  then show ?case by (simp add: List.map_filter_simps)
next
  case (Cons m ms)
  show ?case
  proof (cases "content_tag_of np m")
    case None
    then have "\<not> has_path_value (m_attrs m)" by (simp add: content_tag_of_None)
    then show ?thesis using None Cons.IH by (simp add: List.map_filter_simps)
  next
    case (Some t)
    then have "has_path_value (m_attrs m)" using content_tag_of_None [of np m] by auto
    then show ?thesis using Some Cons.IH by (simp add: List.map_filter_simps)
  qed
qed

lemma upcase_less: "upcase c = CHR ''<'' \<longleftrightarrow> c = CHR ''<''"
proof
  assume a: "upcase c = CHR ''<''"
  show "c = CHR ''<''"
  proof (cases "97 \<le> (of_char c :: nat) \<and> (of_char c :: nat) \<le> 122")
    case True
    then have "upcase c = char_of ((of_char c :: nat) - 32)" by (simp add: upcase_def)
    then have "(of_char (upcase c) :: nat) = (of_char c - 32) mod 256" by simp
    moreover have "(of_char c - 32 :: nat) < 256" using True by arith
    ultimately have "(of_char (upcase c) :: nat) = of_char c - 32" by simp
    then have "(of_char (upcase c) :: nat) \<ge> 65" using True by arith
    then show ?thesis using a by simp
  next
    case False
    then show ?thesis using a by (auto simp: upcase_def split: if_splits)
  qed
next
  assume "c = CHR ''<''"
  then show "upcase c = CHR ''<''" by (simp add: upcase_def)
qed

lemma match_tag_ci_head:
  "c \<noteq> CHR ''<'' \<Longrightarrow> match_tag_ci (CHR ''<'' # opn) cls (c # cs) = None"
proof -
  assume "c \<noteq> CHR ''<''"
  then have "upcase (CHR ''<'') \<noteq> upcase c"
    using upcase_less [of c] upcase_less [of "CHR ''<''"] by auto
  then show ?thesis by (simp add: match_tag_ci_def lit_ci_def)
qed

lemma exec_all_tag_filler:
  assumes "CHR ''<'' \<notin> set f"
  shows "exec_all (match_tag_ci (CHR ''<'' # opn) cls) 0 (f @ s)
         = exec_all (match_tag_ci (CHR ''<'' # opn) cls) 0 s"
proof (rule exec_all_no_match, intro allI impI)
  fix k assume k: "k < length f"
  then obtain c cs where d: "drop k f = c # cs" by (cases "drop k f") auto
  then have "c \<in> set f" by (metis in_set_dropD list.set_intros(1))
  then have "c \<noteq> CHR ''<''" using assms by auto
  then show "match_tag_ci (CHR ''<'' # opn) cls (drop k f @ s) = None"
    by (simp add: d match_tag_ci_head)
qed

lemma exec_all_path_less_tag:
  assumes "CHR ''<'' \<notin> set pre" and "CHR ''>'' \<notin> set attrs"
    and "lazy_until_ci (''</'' @ name @ ''>'') (body @ ''</'' @ name @ ''>'') = Some (body, [])"
  shows "exec_all (match_tag_ci (''<'' @ name) (''</'' @ name @ ''>'')) 0
           (pre @ content_markup name attrs body @ rest)
         = \<lparr>m_text = content_markup name attrs body, m_attrs = attrs, m_body = body\<rparr>
           # exec_all (match_tag_ci (''<'' @ name) (''</'' @ name @ ''>'')) 0 rest"
proof -
  let ?w = "content_markup name attrs body"
  have w: "?w = (''<'' @ name) @ attrs @ ''>'' @ body @ (''</'' @ name @ ''>'')"
    by (simp add: content_markup_def)
  have "exec_all (match_tag_ci (''<'' @ name) (''</'' @ name @ ''>'')) 0 (?w @ rest)
        = \<lparr>m_text = ?w, m_attrs = attrs, m_body = body\<rparr>
          # exec_all (match_tag_ci (''<'' @ name) (''</'' @ name @ ''>'')) 0 rest"
    unfolding w
    by (rule exec_all_match, rule match_tag_ci_markup [OF assms(2) assms(3)]) simp
  then show ?thesis
    using exec_all_tag_filler [OF assms(1), of name "''</'' @ name @ ''>''" "?w @ rest"]
    by simp
qed

section \<open>Properties of the tag parser\<close>

text \<open>
  C4, as the code has it. No step of the extractors throws, and their scan ends: a match
  of a tag expression is never empty, so every round of the \<^verbatim>\<open>exec\<close> loop moves
  forward in the text. What the extractors take for a tag is a match of the tag
  expression: an opening \<^verbatim>\<open><dyad-write\<close> or \<^verbatim>\<open><dyad-search-replace\<close>, the
  attribute string up to the next \<^verbatim>\<open>>\<close>, and the body up to the first closing tag
  that follows. A match gives no action and exactly one warning, which reports its text,
  exactly when its attribute string holds no \<^verbatim>\<open>path="v"\<close> with a non-empty \<open>v\<close> at
  any position; every other match gives one action and no warning. After text without
  \<^verbatim>\<open><\<close>, a closed tag whose attribute string holds no such path is one match, and
  the text after it is parsed as if it stood alone.
\<close>

theorem path_less_match_dropped_with_one_warning:
  "(match_tag_ci opn cls s = Some (m, r) \<longrightarrow> length r < length s)
   \<and> (content_tag_of np m = None) = (\<not> has_path_value (m_attrs m))
   \<and> getDyadWriteTags np text
     = (List.map_filter (content_tag_of np)
          (exec_all (match_tag_ci ''<dyad-write'' ''</dyad-write>'') 0 text),
        map (\<lambda>m. WriteWithoutPath (m_text m))
          (filter (\<lambda>m. \<not> has_path_value (m_attrs m))
             (exec_all (match_tag_ci ''<dyad-write'' ''</dyad-write>'') 0 text)))
   \<and> getDyadSearchReplaceTags np text
     = (List.map_filter (content_tag_of np)
          (exec_all (match_tag_ci ''<dyad-search-replace'' ''</dyad-search-replace>'') 0 text),
        map (\<lambda>m. SearchReplaceWithoutPath (m_text m))
          (filter (\<lambda>m. \<not> has_path_value (m_attrs m))
             (exec_all (match_tag_ci ''<dyad-search-replace'' ''</dyad-search-replace>'') 0
                text)))
   \<and> (CHR ''<'' \<notin> set pre \<and> CHR ''>'' \<notin> set attrs \<and> \<not> has_path_value attrs
        \<and> lazy_until_ci ''</dyad-write>'' (body @ ''</dyad-write>'') = Some (body, [])
      \<longrightarrow> getDyadWriteTags np (pre @ content_markup ''dyad-write'' attrs body @ rest)
          = (fst (getDyadWriteTags np rest),
             WriteWithoutPath (content_markup ''dyad-write'' attrs body)
               # snd (getDyadWriteTags np rest)))
   \<and> (CHR ''<'' \<notin> set pre \<and> CHR ''>'' \<notin> set attrs \<and> \<not> has_path_value attrs
        \<and> lazy_until_ci ''</dyad-search-replace>'' (body @ ''</dyad-search-replace>'')
            = Some (body, [])
      \<longrightarrow> getDyadSearchReplaceTags np
            (pre @ content_markup ''dyad-search-replace'' attrs body @ rest)
          = (fst (getDyadSearchReplaceTags np rest),
             SearchReplaceWithoutPath (content_markup ''dyad-search-replace'' attrs body)
               # snd (getDyadSearchReplaceTags np rest)))"
proof (intro conjI impI)
  assume "match_tag_ci opn cls s = Some (m, r)"
  then show "length r < length s" by (rule match_tag_ci_progress)
next
  show "(content_tag_of np m = None) = (\<not> has_path_value (m_attrs m))"
    by (rule content_tag_of_None)
next
  show "getDyadWriteTags np text
     = (List.map_filter (content_tag_of np)
          (exec_all (match_tag_ci ''<dyad-write'' ''</dyad-write>'') 0 text),
        map (\<lambda>m. WriteWithoutPath (m_text m))
          (filter (\<lambda>m. \<not> has_path_value (m_attrs m))
             (exec_all (match_tag_ci ''<dyad-write'' ''</dyad-write>'') 0 text)))"
    unfolding getDyadWriteTags_def by (rule content_tag_loop_eq)
next
  show "getDyadSearchReplaceTags np text
     = (List.map_filter (content_tag_of np)
          (exec_all (match_tag_ci ''<dyad-search-replace'' ''</dyad-search-replace>'') 0 text),
        map (\<lambda>m. SearchReplaceWithoutPath (m_text m))
          (filter (\<lambda>m. \<not> has_path_value (m_attrs m))
             (exec_all (match_tag_ci ''<dyad-search-replace'' ''</dyad-search-replace>'') 0
                text)))"
    unfolding getDyadSearchReplaceTags_def by (rule content_tag_loop_eq)
next
  assume h: "CHR ''<'' \<notin> set pre \<and> CHR ''>'' \<notin> set attrs \<and> \<not> has_path_value attrs
        \<and> lazy_until_ci ''</dyad-write>'' (body @ ''</dyad-write>'') = Some (body, [])"
  have e: "exec_all (match_tag_ci ''<dyad-write'' ''</dyad-write>'') 0
             (pre @ content_markup ''dyad-write'' attrs body @ rest)
           = \<lparr>m_text = content_markup ''dyad-write'' attrs body, m_attrs = attrs, m_body = body\<rparr>
             # exec_all (match_tag_ci ''<dyad-write'' ''</dyad-write>'') 0 rest"
    using exec_all_path_less_tag [of pre attrs "''dyad-write''" body rest] h by simp
  have n: "attr_regex ''path'' attrs = None" using h by (simp add: attr_regex_path_None)
  show "getDyadWriteTags np (pre @ content_markup ''dyad-write'' attrs body @ rest)
          = (fst (getDyadWriteTags np rest),
             WriteWithoutPath (content_markup ''dyad-write'' attrs body)
               # snd (getDyadWriteTags np rest))"
    unfolding getDyadWriteTags_def e
    using n by (simp only: content_tag_loop_missing_path raw_match.simps)
next
  assume h: "CHR ''<'' \<notin> set pre \<and> CHR ''>'' \<notin> set attrs \<and> \<not> has_path_value attrs
        \<and> lazy_until_ci ''</dyad-search-replace>'' (body @ ''</dyad-search-replace>'')
            = Some (body, [])"
  have e: "exec_all (match_tag_ci ''<dyad-search-replace'' ''</dyad-search-replace>'') 0
             (pre @ content_markup ''dyad-search-replace'' attrs body @ rest)
           = \<lparr>m_text = content_markup ''dyad-search-replace'' attrs body, m_attrs = attrs,
               m_body = body\<rparr>
             # exec_all (match_tag_ci ''<dyad-search-replace'' ''</dyad-search-replace>'') 0 rest"
    using exec_all_path_less_tag [of pre attrs "''dyad-search-replace''" body rest] h by simp
  have n: "attr_regex ''path'' attrs = None" using h by (simp add: attr_regex_path_None)
  show "getDyadSearchReplaceTags np
            (pre @ content_markup ''dyad-search-replace'' attrs body @ rest)
          = (fst (getDyadSearchReplaceTags np rest),
             SearchReplaceWithoutPath (content_markup ''dyad-search-replace'' attrs body)
               # snd (getDyadSearchReplaceTags np rest))"
    unfolding getDyadSearchReplaceTags_def e
    using n by (simp only: content_tag_loop_missing_path raw_match.simps)
qed

theorem path_less_match_dropped_with_one_warning_witness:
  "getDyadWriteTags (\<lambda>p. p)
     (''ok '' @ content_markup ''dyad-write'' '' description=x'' ''hello''
        @ content_markup ''dyad-write'' ('' path='' @ [dquote] @ ''a.ts'' @ [dquote]) ''x'')
   = ([\<lparr>tag_path = ''a.ts'', tag_content = ''x'', tag_description = None\<rparr>],
      [WriteWithoutPath (content_markup ''dyad-write'' '' description=x'' ''hello'')])
   \<and> getDyadSearchReplaceTags (\<lambda>p. p)
       (''ok '' @ content_markup ''dyad-search-replace'' '' description=x'' ''hello''
          @ content_markup ''dyad-write'' ('' path='' @ [dquote] @ ''a.ts'' @ [dquote]) ''x'')
     = ([], [SearchReplaceWithoutPath
               (content_markup ''dyad-search-replace'' '' description=x'' ''hello'')])"
proof -
  let ?rest = "content_markup ''dyad-write'' ('' path='' @ [dquote] @ ''a.ts'' @ [dquote]) ''x''"
  have h0: "CHR ''<'' \<notin> set ''ok ''" by simp
  have h1: "CHR ''>'' \<notin> set '' description=x''" by simp
  have h2: "\<not> has_path_value '' description=x''"
    by (simp add: attr_regex_path_None [symmetric] attr_regex_def attr_at_def lit_def)
  have h3: "lazy_until_ci ''</dyad-write>'' (''hello'' @ ''</dyad-write>'') = Some (''hello'', [])"
    by (simp add: upcase_def)
  have h4: "lazy_until_ci ''</dyad-search-replace>'' (''hello'' @ ''</dyad-search-replace>'')
            = Some (''hello'', [])"
    by (simp add: upcase_def)
  have r1: "getDyadWriteTags (\<lambda>p. p) ?rest
            = ([\<lparr>tag_path = ''a.ts'', tag_content = ''x'', tag_description = None\<rparr>], [])"
    by code_simp
  have r2: "getDyadSearchReplaceTags (\<lambda>p. p) ?rest = ([], [])"
    by code_simp
  note t = path_less_match_dropped_with_one_warning
             [where np = "\<lambda>p. p" and pre = "''ok ''" and attrs = "'' description=x''"
                and body = "''hello''" and rest = ?rest]
  have a: "getDyadWriteTags (\<lambda>p. p)
             (''ok '' @ content_markup ''dyad-write'' '' description=x'' ''hello'' @ ?rest)
           = (fst (getDyadWriteTags (\<lambda>p. p) ?rest),
              WriteWithoutPath (content_markup ''dyad-write'' '' description=x'' ''hello'')
                # snd (getDyadWriteTags (\<lambda>p. p) ?rest))"
    using t h0 h1 h2 h3 by blast
  have b: "getDyadSearchReplaceTags (\<lambda>p. p)
             (''ok '' @ content_markup ''dyad-search-replace'' '' description=x'' ''hello'' @ ?rest)
           = (fst (getDyadSearchReplaceTags (\<lambda>p. p) ?rest),
              SearchReplaceWithoutPath
                (content_markup ''dyad-search-replace'' '' description=x'' ''hello'')
                # snd (getDyadSearchReplaceTags (\<lambda>p. p) ?rest))"
    using t h0 h1 h2 h4 by blast
  show ?thesis
    using a b by (simp only: r1 r2 fst_conv snd_conv)
qed

text \<open>The claim as stated fails in two ways. An attribute whose name ends in
  \<^verbatim>\<open>path\<close>, such as \<^verbatim>\<open>filepath\<close>, is taken for the path: the tag has no path
  attribute and still gives an action and no warning. A tag without a path that is not
  closed runs to the closing tag of the write tag after it, which is then not
  extracted.\<close>

theorem path_attribute_counterexample:
  "getDyadWriteTags (normalizePath demo_env)
     (content_markup ''dyad-write'' ('' filepath='' @ [dquote] @ ''b.ts'' @ [dquote]) ''x'')
   = ([\<lparr>tag_path = ''b.ts'', tag_content = ''x'', tag_description = None\<rparr>], [])
   \<and> getDyadWriteTags (normalizePath demo_env)
       (''<dyad-write>lost''
          @ content_markup ''dyad-write'' ('' path='' @ [dquote] @ ''a.ts'' @ [dquote]) ''x'')
     = ([], [WriteWithoutPath
               (''<dyad-write>lost''
                  @ content_markup ''dyad-write'' ('' path='' @ [dquote] @ ''a.ts'' @ [dquote])
                      ''x'')])"
  by code_simp

text \<open>
  C7, as the code has it. The \<^verbatim>\<open>packages\<close> attribute is split at every single space
  character: names that contain no space, joined by one space each, are parsed into
  exactly those names. Two adjacent spaces enclose an empty name, which is an entry of the
  result, and no other white space separates names.
\<close>

theorem add_dependency_split_single_space:
  assumes "names \<noteq> []" and "join '' '' names \<noteq> []"
    and "\<forall>n \<in> set names. CHR '' '' \<notin> set n \<and> dquote \<notin> set n"
    and "CHR ''<'' \<notin> set body"
  shows "getDyadAddDependencyTags (add_dependency_markup (join '' '' names) body) = names"
proof -
  have q: "dquote \<notin> set (join '' '' names)"
    using assms(3) by (induction "'' ''" names rule: join.induct) (auto simp: dquote_def)
  have "exec_all match_add_dependency 0 (add_dependency_markup (join '' '' names) body @ [])
        = [join '' '' names]"
    using exec_all_add_dependency_step [of "[]" "join '' '' names" body "[]"] q assms(2,4)
    by simp
  then show ?thesis
    using assms(1,3) by (simp add: getDyadAddDependencyTags_def split_char_join)
qed

theorem add_dependency_split_single_space_witness:
  "getDyadAddDependencyTags (add_dependency_markup ''left right'' []) = [''left'', ''right'']"
proof -
  have h1: "[''left'', ''right''] \<noteq> []" by simp
  have h2: "join '' '' [''left'', ''right''] \<noteq> []" by simp
  have h3: "\<forall>n \<in> set [''left'', ''right'']. CHR '' '' \<notin> set n \<and> dquote \<notin> set n"
    by (simp add: dquote_def)
  have h4: "CHR ''<'' \<notin> set []" by simp
  show ?thesis
    using add_dependency_split_single_space [OF h1 h2 h3 h4] by simp
qed

text \<open>The claim as stated fails: two spaces between two names give an empty entry, and a
  tab between two names gives one entry.\<close>

theorem add_dependency_whitespace_counterexample:
  "getDyadAddDependencyTags (add_dependency_markup ''a  b'' []) = [''a'', [], ''b'']
   \<and> getDyadAddDependencyTags (add_dependency_markup (''a'' @ [CHR 0x09] @ ''b'') [])
     = [''a'' @ [CHR 0x09] @ ''b'']"
  by code_simp

section \<open>Properties of the compile-check caller\<close>

lemma fold_elapsed: "fold on_event (map Elapsed ts) st = st"
  by (induction ts arbitrary: st) auto

text \<open>
  C3. The caller registers listeners for a message, an error and an exit of the worker,
  and nothing else. While the worker stays silent, whatever time passes, the promise stays
  pending and the worker is not terminated.
\<close>

theorem generateProblemReport_silent_worker_never_settles:
  "generateProblemReport (map Elapsed ts) = \<lparr>report = Pending, worker_terminated = False\<rparr>"
  by (simp add: generateProblemReport_def fold_elapsed generateProblemReport_started_def)

section \<open>Preservation lemmas\<close>

text \<open>A quantity that every round of a loop keeps is kept by the loop.\<close>

lemma forEach_keeps:
  assumes "\<And>x s. g (snd (f x s)) = g s"
  shows "g (snd (forEach f xs s)) = g s"
proof (induction xs arbitrary: s)
  case Nil
  then show ?case by simp
next
  case (Cons x xs)
  show ?case
  proof (cases "f x s")
    case (Pair r s')
    have "g s' = g s" using assms [of x s] Pair by simp
    then show ?thesis using Pair Cons.IH [of s'] by (cases r) auto
  qed
qed

lemma andThen_keeps:
  assumes "\<And>s. g (snd (f1 s)) = g s" and "\<And>s. g (snd (f2 s)) = g s"
  shows "g (snd (andThen f1 f2 s)) = g s"
proof (cases "f1 s")
  case (Pair r s')
  have "g s' = g s" using assms(1) [of s] Pair by simp
  then show ?thesis using Pair assms(2) [of s'] by (cases r) (auto simp: andThen_def)
qed

lemma fold_keeps:
  assumes "\<And>x s. g (f x s) = g s"
  shows "g (fold f xs s) = g s"
  by (induction xs arbitrary: s) (auto simp: assms)

lemma msg_ids_db_update [simp]: "msg_ids (db_update mid f s) = msg_ids s"
  by (auto simp: msg_ids_def db_update_def dom_def)

lemma msg_ids_simps [simp]:
  "msg_ids (logger_warn m s) = msg_ids s"
  "msg_ids (logger_error m s) = msg_ids s"
  "msg_ids (push_warning m e s) = msg_ids s"
  "msg_ids (push_error m e s) = msg_ids s"
  "msg_ids (log_parse_warnings ws s) = msg_ids s"
  "msg_ids (snd (external env c s)) = msg_ids s"
  "msg_ids (record_call c s) = msg_ids s"
  "msg_ids (s\<lparr>disk := d\<rparr>) = msg_ids s"
  "msg_ids (s\<lparr>calls := cs\<rparr>) = msg_ids s"
  "msg_ids (s\<lparr>writtenFiles := w\<rparr>) = msg_ids s"
  "msg_ids (s\<lparr>renamedFiles := w\<rparr>) = msg_ids s"
  "msg_ids (s\<lparr>deletedFiles := w\<rparr>) = msg_ids s"
  by (simp_all add: msg_ids_def logger_warn_def logger_error_def push_warning_def
        push_error_def log_parse_warnings_def external_def record_call_def)

lemmas step_splits = option.splits sum.splits if_splits node.splits

lemma msg_ids_sql_step [simp]: "msg_ids (sql_step env app appPath q s) = msg_ids s"
  by (simp add: sql_step_def split_beta Let_def split: step_splits)

lemma msg_ids_executeAddDependency [simp]:
  "msg_ids (snd (executeAddDependency env pk mid mc appPath s)) = msg_ids s"
  by (simp add: executeAddDependency_def split_beta Let_def split: step_splits)

lemma msg_ids_note_lock_file [simp]:
  "msg_ids (snd (note_lock_file env appPath f s)) = msg_ids s"
  by (simp add: note_lock_file_def split_beta split: step_splits)

lemma msg_ids_add_dependency_step [simp]:
  "msg_ids (snd (add_dependency_step env pk mid mc appPath s)) = msg_ids s"
  by (simp add: add_dependency_step_def split_beta Let_def andThen_keeps split: step_splits)

lemma msg_ids_delete_step [simp]:
  "msg_ids (snd (delete_step env app appPath p s)) = msg_ids s"
  by (simp add: delete_step_def delete_on_disk_def delete_remote_def split_beta
        split: step_splits)

lemma msg_ids_rename_on_disk [simp]:
  "msg_ids (snd (rename_on_disk env appPath tag a b s)) = msg_ids s"
  by (simp add: rename_on_disk_def split_beta Let_def split: step_splits)

lemma msg_ids_rename_remote [simp]:
  "msg_ids (rename_remote env app tag b s) = msg_ids s"
  by (simp add: rename_remote_def rename_remote_delete_def rename_remote_deploy_def split_beta
        split: step_splits)

lemma msg_ids_rename_step [simp]:
  "msg_ids (snd (rename_step env app appPath tag s)) = msg_ids s"
  by (simp add: rename_step_def split_beta split: step_splits)

lemma msg_ids_search_replace_guarded [simp]:
  "msg_ids (snd (search_replace_guarded env app tag p s)) = msg_ids s"
  by (simp add: search_replace_guarded_def split_beta Let_def split: step_splits)

lemma msg_ids_search_replace_step [simp]:
  "msg_ids (snd (search_replace_step env app appPath tag s)) = msg_ids s"
  by (simp add: search_replace_step_def split_beta split: step_splits)

lemma msg_ids_upload_substitution [simp]:
  "msg_ids (snd (upload_substitution ups tag s)) = msg_ids s"
  by (simp add: upload_substitution_def split_beta split: step_splits)

lemma msg_ids_write_step [simp]:
  "msg_ids (snd (write_step env app appPath ups tag s)) = msg_ids s"
  by (simp add: write_step_def split_beta Let_def split: step_splits)

lemma msg_ids_file_actions [simp]:
  "msg_ids (snd (file_actions env fr app appPath ups ds rs ws s)) = msg_ids s"
  by (simp add: file_actions_def andThen_keeps forEach_keeps)

lemma msg_ids_amend_extra_files [simp]:
  "msg_ids (snd (amend_extra_files env appPath m h u s)) = msg_ids s"
  by (simp add: amend_extra_files_def split_beta Let_def split: step_splits)

lemma msg_ids_commit_changes [simp]:
  "msg_ids (snd (commit_changes env appPath cs mid pk n s)) = msg_ids s"
  by (simp add: commit_changes_def split_beta Let_def forEach_keeps split: step_splits)

lemma msg_ids_run_actions [simp]:
  "msg_ids (snd (run_actions env fr app appPath ups mid m s)) = msg_ids s"
  by (simp add: run_actions_def andThen_keeps fold_keeps)

lemma msg_ids_commit_and_approve [simp]:
  "msg_ids (snd (commit_and_approve env appPath cs mid pk n s)) = msg_ids s"
  by (simp add: commit_and_approve_def split_beta split: step_splits)

lemma msg_ids_try_block [simp]:
  "msg_ids (snd (try_block env fr chatId cs mid app ups s)) = msg_ids s"
  by (simp add: try_block_def split_beta Let_def split: step_splits)

section \<open>Properties of the response processor\<close>

text \<open>
  C2, as the code has it. When the app has a database branch and the snapshot of the
  pre-step fails, \<^verbatim>\<open>processFullResponseActions\<close> runs none of the action steps and
  rejects: the \<^verbatim>\<open>throw\<close> stands before the \<^verbatim>\<open>try\<close> block, so neither the
  \<^verbatim>\<open>catch\<close> nor the \<^verbatim>\<open>finally\<close> block runs. The state it leaves differs from the
  initial one only in the cleared upload registry of the chat, the recorded snapshot call
  and one logged error; the stored messages are untouched.
\<close>

theorem snapshot_failure_rejects:
  assumes "db_chats s0 chatId = Some chat" and "chat_app chat = Some app"
    and "truthy (neonProjectId app)" and "truthy (neonDevelopmentBranchId app)"
    and "fails env (calls s0) (StoreDbTimestampAtCurrentVersion (app_id app)) = Some e"
  shows "processFullResponseActions env fullResponse chatId chatSummary messageId s0
         = (Thrown (neon_error e),
            (begin_invocation chatId s0)
              \<lparr>calls := calls s0 @ [StoreDbTimestampAtCurrentVersion (app_id app)],
               logged := logged s0
                 @ [LogError (''Error creating Neon branch at current version: '' @ e)]\<rparr>)
       \<and> db_messages (snd (processFullResponseActions env fullResponse chatId chatSummary
                              messageId s0)) = db_messages s0"
  using assms
  by (simp add: processFullResponseActions_def neon_prestep_def external_def logger_error_def
        neon_error_def begin_invocation_def record_call_def)

theorem snapshot_failure_rejects_witness:
  "processFullResponseActions demo_neon_down demo_response 1 None 7 demo_neon_state
   = (Thrown (neon_error ''Error: timeout''),
      (begin_invocation 1 demo_neon_state)
        \<lparr>calls := calls demo_neon_state @ [StoreDbTimestampAtCurrentVersion 1],
         logged := logged demo_neon_state
           @ [LogError (''Error creating Neon branch at current version: '' @ ''Error: timeout'')]\<rparr>)
   \<and> db_messages (snd (processFullResponseActions demo_neon_down demo_response 1 None 7
                          demo_neon_state)) = db_messages demo_neon_state"
proof -
  let ?app = "demo_app\<lparr>neonProjectId := Some ''np'', neonDevelopmentBranchId := Some ''br''\<rparr>"
  have h1: "db_chats demo_neon_state 1 = Some \<lparr>chat_app = Some ?app\<rparr>"
    by (simp add: demo_neon_state_def)
  have h2: "chat_app \<lparr>chat_app = Some ?app\<rparr> = Some ?app" by simp
  have h3: "truthy (neonProjectId ?app)" by (simp add: truthy_def)
  have h4: "truthy (neonDevelopmentBranchId ?app)" by (simp add: truthy_def)
  have h5: "fails demo_neon_down (calls demo_neon_state)
              (StoreDbTimestampAtCurrentVersion (app_id ?app)) = Some ''Error: timeout''"
    by (simp add: demo_neon_down_def)
  have a: "app_id ?app = 1" by (simp add: demo_app_def)
  show ?thesis
    by (rule snapshot_failure_rejects [OF h1 h2 h3 h4 h5, of demo_response None 7, unfolded a])
qed

text \<open>The claim as stated fails: with a failing snapshot the call does not return an error
  value, and the stored content of the message is not rewritten.\<close>

theorem snapshot_failure_counterexample:
  "fst (processFullResponseActions demo_neon_down demo_response 1 None 7 demo_neon_state)
     = Thrown (neon_error ''Error: timeout'')
   \<and> db_messages (snd (processFullResponseActions demo_neon_down demo_response 1 None 7
                          demo_neon_state)) 7 = Some demo_message"
  by (simp add: processFullResponseActions_def neon_prestep_def external_def logger_error_def
        neon_error_def demo_neon_state_def demo_neon_down_def demo_state_def demo_app_def
        truthy_def begin_invocation_def record_call_def)

text \<open>
  C6. A search-replace tag whose target does not exist, or whose patch is not applied
  (\<^verbatim>\<open>success\<close> false or no content), only logs a warning: the round leaves the disk,
  the written files, the user-visible warnings and errors and the external calls as they
  were, and the loop goes on with the next tag.
\<close>

theorem search_replace_failure_is_silent:
  assumes "safeJoin env appPath (tag_path tag) = Inr fullFilePath"
    and "disk s fullFilePath = None
         \<or> (disk s fullFilePath = Some (File original)
            \<and> applySearchReplace env original (tag_content tag) = Inr result
            \<and> (\<not> sr_success result \<or> sr_content result = None))"
  shows "search_replace_step env app appPath tag s
           = (None, s\<lparr>logged := logged s
                @ [LogWarn (search_replace_warning (disk s) fullFilePath tag result)]\<rparr>)
         \<and> forEach (search_replace_step env app appPath) (tag # tags) s
           = forEach (search_replace_step env app appPath) tags
               (s\<lparr>logged := logged s
                  @ [LogWarn (search_replace_warning (disk s) fullFilePath tag result)]\<rparr>)"
proof -
  have "search_replace_step env app appPath tag s
           = (None, s\<lparr>logged := logged s
                @ [LogWarn (search_replace_warning (disk s) fullFilePath tag result)]\<rparr>)"
    using assms
    by (auto simp: search_replace_step_def search_replace_guarded_def existsSync_def
          readFile_def logger_warn_def search_replace_warning_def)
  then show ?thesis by simp
qed

theorem search_replace_failure_is_silent_witness:
  "search_replace_step demo_env demo_app ''/apps/demo''
     \<lparr>tag_path = ''b.ts'', tag_content = ''rules'', tag_description = None\<rparr> demo_state
   = (None, demo_state\<lparr>logged := [LogWarn ''Failed to apply search-replace to b.ts: no match'']\<rparr>)
   \<and> forEach (search_replace_step demo_env demo_app ''/apps/demo'')
       [\<lparr>tag_path = ''b.ts'', tag_content = ''rules'', tag_description = None\<rparr>,
        \<lparr>tag_path = ''missing.ts'', tag_content = ''rules'', tag_description = None\<rparr>]
       demo_state
     = forEach (search_replace_step demo_env demo_app ''/apps/demo'')
         [\<lparr>tag_path = ''missing.ts'', tag_content = ''rules'', tag_description = None\<rparr>]
         (demo_state\<lparr>logged := [LogWarn ''Failed to apply search-replace to b.ts: no match'']\<rparr>)"
proof -
  let ?tag = "\<lparr>tag_path = ''b.ts'', tag_content = ''rules'', tag_description = None\<rparr>"
  let ?res = "\<lparr>sr_success = False, sr_content = None, sr_error = Some ''no match''\<rparr>"
  have h1: "safeJoin demo_env ''/apps/demo'' (tag_path ?tag) = Inr ''/apps/demo/b.ts''"
    by (simp add: demo_env_def)
  have h2: "disk demo_state ''/apps/demo/b.ts'' = None
         \<or> (disk demo_state ''/apps/demo/b.ts'' = Some (File ''export const b = 2;'')
            \<and> applySearchReplace demo_env ''export const b = 2;'' (tag_content ?tag) = Inr ?res
            \<and> (\<not> sr_success ?res \<or> sr_content ?res = None))"
    by (simp add: demo_env_def demo_state_def)
  have w: "search_replace_warning (disk demo_state) ''/apps/demo/b.ts'' ?tag ?res
           = ''Failed to apply search-replace to b.ts: no match''"
    by (simp add: search_replace_warning_def demo_state_def)
  have l: "logged demo_state = []" by (simp add: demo_state_def)
  show ?thesis
    using search_replace_failure_is_silent [OF h1 h2, of demo_app
        "[\<lparr>tag_path = ''missing.ts'', tag_content = ''rules'', tag_description = None\<rparr>]"]
    by (simp only: w l append_Nil)
qed

lemma appendedContent_nonempty: "appendedContent ws es \<noteq> []"
  by (simp add: appendedContent_def)

lemma warnings_finally [simp]: "warnings (finally_block fr mid s) = warnings s"
  by (simp add: finally_block_def db_update_def)

lemma errors_finally [simp]: "errors (finally_block fr mid s) = errors s"
  by (simp add: finally_block_def db_update_def)

lemma content_finally:
  assumes "mid \<in> msg_ids s"
  shows "map_option msg_content (db_messages (finally_block fr mid s) mid)
         = Some (fr @ ''\<newline>\<newline>'' @ appendedContent (warnings s) (errors s))"
  using assms
  by (auto simp: finally_block_def db_update_def msg_ids_def appendedContent_def)

lemma msg_ids_neon_prestep [simp]: "msg_ids (snd (neon_prestep env app s)) = msg_ids s"
  by (simp add: neon_prestep_def split_beta split: step_splits)

lemma msg_ids_begin_invocation [simp]: "msg_ids (begin_invocation chatId s) = msg_ids s"
  by (simp add: begin_invocation_def msg_ids_def)

lemma neon_prestep_passes:
  assumes "\<not> (truthy (neonProjectId app) \<and> truthy (neonDevelopmentBranchId app))
           \<or> fails env (calls s0) (StoreDbTimestampAtCurrentVersion (app_id app)) = None"
  shows "fst (neon_prestep env app (begin_invocation chatId s0)) = None"
  using assms by (auto simp: neon_prestep_def external_def begin_invocation_def)

lemma processFullResponseActions_entered:
  assumes "db_chats s0 chatId = Some chat" and "chat_app chat = Some app"
    and "fst (neon_prestep env app (begin_invocation chatId s0)) = None"
  shows "processFullResponseActions env fullResponse chatId chatSummary messageId s0 =
     (case try_block env fullResponse chatId chatSummary messageId app (uploadsByChat s0 chatId)
             (snd (neon_prestep env app (begin_invocation chatId s0))) of
        (Inr r, s3) \<Rightarrow> (Returned r, finally_block fullResponse messageId s3)
      | (Inl e, s3) \<Rightarrow>
          (Returned (empty_result\<lparr>res_error := Some e\<rparr>),
           finally_block fullResponse messageId
             (logger_error (''Error processing files: '' @ e) s3)))"
proof -
  have c: "db_chats (begin_invocation chatId s0) chatId = Some chat"
    using assms(1) by (simp add: begin_invocation_def)
  obtain s2 where n: "neon_prestep env app (begin_invocation chatId s0) = (None, s2)"
    using assms(3) by (cases "neon_prestep env app (begin_invocation chatId s0)") auto
  show ?thesis
    unfolding processFullResponseActions_def Let_def c option.case assms(2) n prod.case snd_conv
    ..
qed

text \<open>
  C10. The block appended in the \<^verbatim>\<open>finally\<close> step is never empty: without warnings
  and errors it is the white space of the template. So whenever the \<^verbatim>\<open>try\<close> block is
  entered (the app is found and the pre-step does not throw), the stored content of the
  message with the given id is overwritten with the full response, two newlines and that
  block, whether there are warnings or errors or not.
\<close>

theorem finally_always_rewrites_content:
  assumes "db_chats s0 chatId = Some chat" and "chat_app chat = Some app"
    and "\<not> (truthy (neonProjectId app) \<and> truthy (neonDevelopmentBranchId app))
         \<or> fails env (calls s0) (StoreDbTimestampAtCurrentVersion (app_id app)) = None"
    and "db_messages s0 messageId = Some m"
    and "s' = snd (processFullResponseActions env fullResponse chatId chatSummary messageId s0)"
  shows "appendedContent [] [] = ''\<newline>    \<newline>    \<newline>    ''
       \<and> appendedContent (warnings s') (errors s') \<noteq> []
       \<and> map_option msg_content (db_messages s' messageId)
           = Some (fullResponse @ ''\<newline>\<newline>'' @ appendedContent (warnings s') (errors s'))"
proof -
  let ?s2 = "snd (neon_prestep env app (begin_invocation chatId s0))"
  let ?t = "try_block env fullResponse chatId chatSummary messageId app (uploadsByChat s0 chatId) ?s2"
  have "msg_ids (snd ?t) = msg_ids s0" by simp
  moreover have "messageId \<in> msg_ids s0" using assms(4) by (simp add: msg_ids_def domI)
  ultimately have ids: "messageId \<in> msg_ids (snd ?t)" by simp
  have s': "s' = (case fst ?t of
                    Inr r \<Rightarrow> finally_block fullResponse messageId (snd ?t)
                  | Inl e \<Rightarrow> finally_block fullResponse messageId
                              (logger_error (''Error processing files: '' @ e) (snd ?t)))"
    unfolding assms(5)
      processFullResponseActions_entered [OF assms(1,2) neon_prestep_passes [OF assms(3)]]
    by (simp add: split_beta split: sum.splits)
  have c: "map_option msg_content (db_messages s' messageId)
           = Some (fullResponse @ ''\<newline>\<newline>'' @ appendedContent (warnings s') (errors s'))"
  proof (cases "fst ?t")
    case (Inl e)
    have "messageId \<in> msg_ids (logger_error (''Error processing files: '' @ e) (snd ?t))"
      using ids by simp
    from content_finally [OF this, of fullResponse] show ?thesis
      using Inl s' by simp
  next
    case (Inr r)
    from content_finally [OF ids, of fullResponse] show ?thesis
      using Inr s' by simp
  qed
  have e: "appendedContent [] [] = ''\<newline>    \<newline>    \<newline>    ''"
    by (simp add: appendedContent_def)
  show ?thesis using c e appendedContent_nonempty by blast
qed

theorem finally_always_rewrites_content_witness:
  "appendedContent [] [] = ''\<newline>    \<newline>    \<newline>    ''
   \<and> appendedContent
         (warnings (snd (processFullResponseActions demo_env ''Done.'' 1 None 7 demo_state)))
         (errors (snd (processFullResponseActions demo_env ''Done.'' 1 None 7 demo_state)))
       \<noteq> []
   \<and> map_option msg_content
         (db_messages (snd (processFullResponseActions demo_env ''Done.'' 1 None 7 demo_state)) 7)
       = Some (''Done.'' @ ''\<newline>\<newline>''
           @ appendedContent
               (warnings (snd (processFullResponseActions demo_env ''Done.'' 1 None 7 demo_state)))
               (errors (snd (processFullResponseActions demo_env ''Done.'' 1 None 7 demo_state))))"
proof -
  have h1: "db_chats demo_state 1 = Some \<lparr>chat_app = Some demo_app\<rparr>"
    by (simp add: demo_state_def)
  have h2: "chat_app \<lparr>chat_app = Some demo_app\<rparr> = Some demo_app" by simp
  have h3: "\<not> (truthy (neonProjectId demo_app) \<and> truthy (neonDevelopmentBranchId demo_app))
            \<or> fails demo_env (calls demo_state)
                 (StoreDbTimestampAtCurrentVersion (app_id demo_app)) = None"
    by (simp add: demo_app_def truthy_def)
  have h4: "db_messages demo_state 7 = Some demo_message"
    by (simp add: demo_state_def)
  show ?thesis
    by (rule finally_always_rewrites_content [OF h1 h2 h3 h4 refl])
qed

section \<open>The recorded calls of each step\<close>

lemma calls_where_simps [simp]:
  "calls_where P (logger_warn m s) = calls_where P s"
  "calls_where P (logger_error m s) = calls_where P s"
  "calls_where P (push_warning m e s) = calls_where P s"
  "calls_where P (push_error m e s) = calls_where P s"
  "calls_where P (log_parse_warnings ws s) = calls_where P s"
  "calls_where P (db_update mid f s) = calls_where P s"
  "calls_where P (begin_invocation chatId s) = calls_where P s"
  "calls_where P (finally_block fr mid s) = calls_where P s"
  "calls_where P (snd (external env c s))
     = (if P c then calls_where P s @ [c] else calls_where P s)"
  "calls_where P (s\<lparr>disk := d\<rparr>) = calls_where P s"
  "calls_where P (record_call c s)
     = (if P c then calls_where P s @ [c] else calls_where P s)"
  "calls_where P (s\<lparr>writtenFiles := w\<rparr>) = calls_where P s"
  "calls_where P (s\<lparr>renamedFiles := w\<rparr>) = calls_where P s"
  "calls_where P (s\<lparr>deletedFiles := w\<rparr>) = calls_where P s"
  by (simp_all add: calls_where_def logger_warn_def logger_error_def push_warning_def
        push_error_def log_parse_warnings_def external_def db_update_def begin_invocation_def
        finally_block_def record_call_def)

lemma calls_where_neon_prestep:
  assumes "\<And>a. \<not> P (StoreDbTimestampAtCurrentVersion a)"
  shows "calls_where P (snd (neon_prestep env app s)) = calls_where P s"
  using assms by (simp add: neon_prestep_def split_beta split: step_splits)

lemma calls_where_sql_step:
  assumes "\<And>a b. \<not> P (ExecuteSupabaseSql a b)" and "\<And>a b c. \<not> P (WriteMigrationFile a b c)"
  shows "calls_where P (sql_step env app appPath q s) = calls_where P s"
  using assms
  by (simp add: sql_step_def split_beta Let_def split: step_splits)

lemma calls_where_executeAddDependency:
  "calls_where P (snd (executeAddDependency env pk mid mc appPath s))
   = (if P (Exec (install_command pk) appPath)
      then calls_where P s @ [Exec (install_command pk) appPath] else calls_where P s)"
  by (simp add: executeAddDependency_def split_beta Let_def split: step_splits)

lemma calls_where_note_lock_file [simp]:
  "calls_where P (snd (note_lock_file env appPath f s)) = calls_where P s"
  by (simp add: note_lock_file_def split_beta split: step_splits)

lemma calls_where_add_dependency_step:
  "calls_where P (snd (add_dependency_step env pk mid mc appPath s))
   = (if pk \<noteq> [] \<and> P (Exec (install_command pk) appPath)
      then calls_where P s @ [Exec (install_command pk) appPath] else calls_where P s)"
  by (simp add: add_dependency_step_def split_beta Let_def andThen_keeps
        calls_where_executeAddDependency split: step_splits)

lemma calls_where_delete_step:
  assumes "\<And>a b. \<not> P (GitRemove a b)" and "\<And>a b. \<not> P (DeleteSupabaseFunction a b)"
  shows "calls_where P (snd (delete_step env app appPath p s)) = calls_where P s"
  using assms
  by (simp add: delete_step_def delete_on_disk_def delete_remote_def split_beta
        split: step_splits)

lemma calls_where_rename_on_disk:
  assumes "\<And>a b. \<not> P (GitRemove a b)" and "\<And>a b. \<not> P (GitAdd a b)"
  shows "calls_where P (snd (rename_on_disk env appPath tag a b s)) = calls_where P s"
  using assms by (simp add: rename_on_disk_def split_beta Let_def split: step_splits)

lemma calls_where_rename_remote:
  assumes "\<And>a b. \<not> P (DeleteSupabaseFunction a b)"
    and "\<And>a b c. \<not> P (DeploySupabaseFunctions a b c)"
  shows "calls_where P (rename_remote env app tag b s) = calls_where P s"
  using assms
  by (simp add: rename_remote_def rename_remote_delete_def rename_remote_deploy_def split_beta
        split: step_splits)

lemma calls_where_rename_step:
  assumes "\<And>a b. \<not> P (GitRemove a b)" and "\<And>a b. \<not> P (GitAdd a b)"
    and "\<And>a b. \<not> P (DeleteSupabaseFunction a b)"
    and "\<And>a b c. \<not> P (DeploySupabaseFunctions a b c)"
  shows "calls_where P (snd (rename_step env app appPath tag s)) = calls_where P s"
  using assms
  by (simp add: rename_step_def calls_where_rename_on_disk calls_where_rename_remote
        split_beta split: step_splits)

lemma calls_where_search_replace_guarded:
  assumes "\<And>a b c. \<not> P (DeploySupabaseFunctions a b c)"
  shows "calls_where P (snd (search_replace_guarded env app tag p s)) = calls_where P s"
  using assms
  by (simp add: search_replace_guarded_def split_beta Let_def split: step_splits)

lemma calls_where_search_replace_step:
  assumes "\<And>a b c. \<not> P (DeploySupabaseFunctions a b c)"
  shows "calls_where P (snd (search_replace_step env app appPath tag s)) = calls_where P s"
  using assms
  by (simp add: search_replace_step_def calls_where_search_replace_guarded split_beta
        split: step_splits)

lemma calls_where_upload_substitution [simp]:
  "calls_where P (snd (upload_substitution ups tag s)) = calls_where P s"
  by (simp add: upload_substitution_def split_beta split: step_splits)

lemma calls_where_write_step:
  assumes "\<And>a b c. \<not> P (DeploySupabaseFunctions a b c)"
  shows "calls_where P (snd (write_step env app appPath ups tag s)) = calls_where P s"
  using assms
  by (simp add: write_step_def split_beta Let_def split: step_splits)

lemma calls_where_file_actions:
  assumes "\<And>a b. \<not> P (GitRemove a b)" and "\<And>a b. \<not> P (GitAdd a b)"
    and "\<And>a b. \<not> P (DeleteSupabaseFunction a b)"
    and "\<And>a b c. \<not> P (DeploySupabaseFunctions a b c)"
  shows "calls_where P (snd (file_actions env fr app appPath ups ds rs ws s)) = calls_where P s"
  using assms
  by (simp add: file_actions_def andThen_keeps forEach_keeps calls_where_delete_step
        calls_where_rename_step calls_where_search_replace_step calls_where_write_step)

lemma calls_where_amend_extra_files:
  assumes "\<And>a. \<not> P (GitAddAll a)" and "\<And>a b c. \<not> P (GitCommit a b c)"
  shows "calls_where P (snd (amend_extra_files env appPath m h u s)) = calls_where P s"
  using assms by (simp add: amend_extra_files_def split_beta Let_def split: step_splits)

lemma calls_where_commit_changes:
  assumes "\<And>a b. \<not> P (GitAdd a b)" and "\<And>a. \<not> P (GitAddAll a)"
    and "\<And>a b c. \<not> P (GitCommit a b c)" and "\<And>a. \<not> P (GetGitUncommittedFiles a)"
  shows "calls_where P (snd (commit_changes env appPath cs mid pk n s)) = calls_where P s"
proof -
  have a: "calls_where P (snd (forEach (\<lambda>file. external env (GitAdd appPath file)) fs t))
           = calls_where P t" for fs t
    using assms(1) by (simp add: forEach_keeps)
  show ?thesis
    using assms
    by (simp add: commit_changes_def calls_where_amend_extra_files split_beta Let_def a
          split: step_splits)
qed

section \<open>Entering the try block\<close>

lemma andThen_snd:
  "snd (andThen f g s) = (if fst (f s) = None then snd (g (snd (f s))) else snd (f s))"
  by (cases "f s") (auto simp: andThen_def split: option.splits)


lemma andThen_snd_passed: "fst (f s) = None \<Longrightarrow> snd (andThen f g s) = snd (g (snd (f s)))"
  by (simp add: andThen_snd)

lemma andThen_snd_thrown: "fst (f s) \<noteq> None \<Longrightarrow> snd (andThen f g s) = snd (f s)"
  by (auto simp: andThen_snd)

lemma findMessage_cong:
  "db_messages s = db_messages t \<Longrightarrow> findMessage s a b = findMessage t a b"
  by (simp add: findMessage_def)

lemma db_messages_entry [simp]:
  "db_messages (log_parse_warnings ws s) = db_messages s"
  "db_messages (begin_invocation chatId s) = db_messages s"
  "db_messages (snd (neon_prestep env app s)) = db_messages s"
  by (simp_all add: log_parse_warnings_def begin_invocation_def neon_prestep_def external_def
        record_call_def logger_error_def split_beta split: step_splits)

lemma findMessage_entry [simp]:
  "findMessage (log_parse_warnings ws s) a b = findMessage s a b"
  "findMessage (begin_invocation chatId s) a b = findMessage s a b"
  "findMessage (snd (neon_prestep env app s)) a b = findMessage s a b"
  by (rule findMessage_cong, simp)+

lemma calls_where_run_actions_exec:
  "calls_where is_exec (snd (run_actions env fr app appPath ups mid m s))
   = (if getDyadAddDependencyTags fr \<noteq> []
      then calls_where is_exec s @ [Exec (install_command (getDyadAddDependencyTags fr)) appPath]
      else calls_where is_exec s)"
proof -
  let ?s1 = "fold (sql_step env app appPath)
               (if truthy (supabaseProjectId app) then getDyadExecuteSqlTags fr else []) s"
  let ?d = "add_dependency_step env (getDyadAddDependencyTags fr) mid (msg_content m) appPath"
  have a: "calls_where is_exec ?s1 = calls_where is_exec s"
    by (rule fold_keeps) (simp add: calls_where_sql_step)
  have b: "calls_where is_exec (snd (?d ?s1))
           = (if getDyadAddDependencyTags fr \<noteq> []
              then calls_where is_exec s
                   @ [Exec (install_command (getDyadAddDependencyTags fr)) appPath]
              else calls_where is_exec s)"
    by (simp add: calls_where_add_dependency_step a)
  have c: "calls_where is_exec (snd (file_actions env fr app appPath ups ds rs ws t))
           = calls_where is_exec t" for ds rs ws t
    by (rule calls_where_file_actions) simp_all
  show ?thesis
  proof (cases "fst (?d ?s1) = None")
    case True
    show ?thesis
      unfolding run_actions_def andThen_snd_passed [of ?d ?s1, OF True] c b ..
  next
    case False
    show ?thesis
      unfolding run_actions_def andThen_snd_thrown [of ?d ?s1, OF False] b ..
  qed
qed

lemma calls_where_commit_and_approve_exec:
  "calls_where is_exec (snd (commit_and_approve env appPath cs mid pk n s))
   = calls_where is_exec s"
proof -
  have "calls_where is_exec (snd (commit_changes env appPath cs mid pk n s))
        = calls_where is_exec s"
    by (rule calls_where_commit_changes) simp_all
  then show ?thesis
    by (simp add: commit_and_approve_def split_beta split: sum.splits)
qed

lemma try_block_found:
  assumes "findMessage s mid chatId = Some m"
  shows "try_block env fr chatId cs mid app ups s =
     (case run_actions env fr app (getDyadAppPath env (app_path app)) ups mid m
             (log_parse_warnings (snd (getDyadWriteTags (normalizePath env) fr)) s) of
        (Some e, s2) \<Rightarrow> (Inl e, s2)
      | (None, s2) \<Rightarrow>
          commit_and_approve env (getDyadAppPath env (app_path app)) cs mid
            (getDyadAddDependencyTags fr)
            (length (if truthy (supabaseProjectId app) then getDyadExecuteSqlTags fr else []))
            s2)"
  using assms by (simp add: try_block_def Let_def)

lemma calls_where_try_block_exec:
  assumes "findMessage s mid chatId = Some m"
  shows "calls_where is_exec (snd (try_block env fr chatId cs mid app ups s))
         = (if getDyadAddDependencyTags fr \<noteq> []
            then calls_where is_exec s
                 @ [Exec (install_command (getDyadAddDependencyTags fr))
                      (getDyadAppPath env (app_path app))]
            else calls_where is_exec s)"
  unfolding try_block_found [OF assms]
  by (simp add: split_beta calls_where_run_actions_exec calls_where_commit_and_approve_exec
        split: option.splits)

lemma split_concat_nonempty:
  "ts \<noteq> [] \<Longrightarrow> concat (map (\<lambda>(f, P, body). split_char d P) ts) \<noteq> []"
  by (cases ts) (auto simp: split_char_nonempty split: prod.splits)

text \<open>
  C5. For a response made of add-dependency tags (each with a non-empty \<^verbatim>\<open>packages\<close>
  attribute, with text free of \<^verbatim>\<open><\<close> around them), the parsed package list is the
  concatenation, in tag order, of the lists each attribute splits into, duplicates kept;
  and an invocation that enters the \<^verbatim>\<open>try\<close> block and finds its message runs the
  package manager exactly once, with the command built from that whole list.
\<close>

theorem add_dependency_tags_concatenated_one_install:
  assumes "\<forall>(f, P, body) \<in> set ts.
             CHR ''<'' \<notin> set f \<and> dquote \<notin> set P \<and> P \<noteq> [] \<and> CHR ''<'' \<notin> set body"
    and "CHR ''<'' \<notin> set trailing" and "ts \<noteq> []"
    and "db_chats s0 chatId = Some chat" and "chat_app chat = Some app"
    and "\<not> (truthy (neonProjectId app) \<and> truthy (neonDevelopmentBranchId app))
         \<or> fails env (calls s0) (StoreDbTimestampAtCurrentVersion (app_id app)) = None"
    and "findMessage s0 messageId chatId = Some m"
  shows "getDyadAddDependencyTags (add_dependency_response ts trailing)
           = concat (map (\<lambda>(f, P, body). split_char CHR '' '' P) ts)
       \<and> calls_where is_exec
           (snd (processFullResponseActions env (add_dependency_response ts trailing) chatId
                   chatSummary messageId s0))
           = calls_where is_exec s0
             @ [Exec (install_command (concat (map (\<lambda>(f, P, body). split_char CHR '' '' P) ts)))
                  (getDyadAppPath env (app_path app))]"
proof -
  let ?fr = "add_dependency_response ts trailing"
  have p: "getDyadAddDependencyTags ?fr = concat (map (\<lambda>(f, P, body). split_char CHR '' '' P) ts)"
    using exec_all_add_dependency_response [OF assms(1,2)]
    by (simp add: getDyadAddDependencyTags_def map_map comp_def case_prod_unfold)
  have ne: "getDyadAddDependencyTags ?fr \<noteq> []"
    unfolding p using assms(3) by (rule split_concat_nonempty)
  let ?s2 = "snd (neon_prestep env app (begin_invocation chatId s0))"
  have f: "findMessage ?s2 messageId chatId = Some m" using assms(7) by simp
  have c: "calls_where is_exec ?s2 = calls_where is_exec s0"
    by (simp add: calls_where_neon_prestep)
  have "calls_where is_exec
          (snd (processFullResponseActions env ?fr chatId chatSummary messageId s0))
        = calls_where is_exec
            (snd (try_block env ?fr chatId chatSummary messageId app (uploadsByChat s0 chatId) ?s2))"
    unfolding processFullResponseActions_entered [OF assms(4,5) neon_prestep_passes [OF assms(6)]]
    by (simp add: split_beta split: sum.splits)
  also have "\<dots> = calls_where is_exec s0
             @ [Exec (install_command (getDyadAddDependencyTags ?fr))
                  (getDyadAppPath env (app_path app))]"
    using ne by (simp add: calls_where_try_block_exec [OF f] c)
  finally show ?thesis using p by simp
qed

theorem add_dependency_tags_concatenated_one_install_witness:
  "getDyadAddDependencyTags
     (add_dependency_response [([], ''left right'', []), ([], ''right extra'', [])] [])
     = [''left'', ''right'', ''right'', ''extra'']
   \<and> calls_where is_exec
       (snd (processFullResponseActions demo_env
               (add_dependency_response [([], ''left right'', []), ([], ''right extra'', [])] [])
               1 None 7 demo_state))
     = [Exec ''(pnpm add left right right extra) || (npm install --legacy-peer-deps left right right extra)''
          ''/apps/demo'']"
proof -
  let ?ts = "[([], ''left right'', []), ([], ''right extra'', [])] :: (string \<times> string \<times> string) list"
  have h1: "\<forall>(f, P, body) \<in> set ?ts.
             CHR ''<'' \<notin> set f \<and> dquote \<notin> set P \<and> P \<noteq> [] \<and> CHR ''<'' \<notin> set body"
    by (simp add: dquote_def)
  have h2: "CHR ''<'' \<notin> set []" by simp
  have h3: "?ts \<noteq> []" by simp
  have h4: "db_chats demo_state 1 = Some \<lparr>chat_app = Some demo_app\<rparr>"
    by (simp add: demo_state_def)
  have h5: "chat_app \<lparr>chat_app = Some demo_app\<rparr> = Some demo_app" by simp
  have h6: "\<not> (truthy (neonProjectId demo_app) \<and> truthy (neonDevelopmentBranchId demo_app))
            \<or> fails demo_env (calls demo_state)
                 (StoreDbTimestampAtCurrentVersion (app_id demo_app)) = None"
    by (simp add: demo_app_def truthy_def)
  have h7: "findMessage demo_state 7 1 = Some demo_message"
    by (simp add: findMessage_def demo_state_def demo_message_def)
  have e1: "concat (map (\<lambda>(f, P, body). split_char CHR '' '' P) ?ts)
            = [''left'', ''right'', ''right'', ''extra'']"
    by simp
  have e2: "install_command [''left'', ''right'', ''right'', ''extra'']
            = ''(pnpm add left right right extra) || (npm install --legacy-peer-deps left right right extra)''"
    by (simp add: install_command_def)
  have e3: "getDyadAppPath demo_env (app_path demo_app) = ''/apps/demo''"
    by (simp add: demo_env_def demo_app_def)
  have e4: "calls_where is_exec demo_state = []"
    by (simp add: calls_where_def demo_state_def)
  show ?thesis
    using add_dependency_tags_concatenated_one_install [OF h1 h2 h3 h4 h5 h6 h7, of None]
    unfolding e1 e2 e3 e4 append_Nil .
qed

section \<open>No call to git while no file has changed\<close>

lemma no_git_since_refl [simp]: "no_git_since s s"
  by (simp add: no_git_since_def)

lemma no_git_since_trans:
  "no_git_since s t \<Longrightarrow> no_git_since t u \<Longrightarrow> no_git_since s u"
  by (auto simp: no_git_since_def)

lemma forEach_no_git:
  assumes "\<And>x s. no_git_since s (snd (f x s))"
  shows "no_git_since s (snd (forEach f xs s))"
proof (induction xs arbitrary: s)
  case Nil
  then show ?case by simp
next
  case (Cons x xs)
  show ?case
  proof (cases "f x s")
    case (Pair r s')
    have a: "no_git_since s s'" using assms [of s x] Pair by simp
    show ?thesis
    proof (cases r)
      case None
      then show ?thesis using Pair no_git_since_trans [OF a Cons.IH [of s']] by simp
    next
      case (Some e)
      then show ?thesis using Pair a by simp
    qed
  qed
qed

lemma andThen_no_git:
  assumes "\<And>s. no_git_since s (snd (f s))" and "\<And>s. no_git_since s (snd (g s))"
  shows "no_git_since s (snd (andThen f g s))"
proof (cases "fst (f s) = None")
  case True
  show ?thesis
    unfolding andThen_snd_passed [of f s, OF True]
    using no_git_since_trans [OF assms(1) assms(2)] .
next
  case False
  show ?thesis
    unfolding andThen_snd_thrown [of f s, OF False] using assms(1) .
qed

lemma fold_no_git:
  assumes "\<And>x s. no_git_since s (f x s)"
  shows "no_git_since s (fold f xs s)"
proof (induction xs arbitrary: s)
  case Nil
  then show ?case by simp
next
  case (Cons x xs)
  show ?case using no_git_since_trans [OF assms [of s x] Cons.IH [of "f x s"]] by simp
qed

lemmas primitive_defs = external_def record_call_def logger_warn_def logger_error_def
  push_warning_def push_error_def log_parse_warnings_def

lemma changed_files_simps [simp]:
  "writtenFiles (logger_warn m s) = writtenFiles s"
  "renamedFiles (logger_warn m s) = renamedFiles s"
  "deletedFiles (logger_warn m s) = deletedFiles s"
  "writtenFiles (logger_error m s) = writtenFiles s"
  "renamedFiles (logger_error m s) = renamedFiles s"
  "deletedFiles (logger_error m s) = deletedFiles s"
  "writtenFiles (push_warning m e s) = writtenFiles s"
  "renamedFiles (push_warning m e s) = renamedFiles s"
  "deletedFiles (push_warning m e s) = deletedFiles s"
  "writtenFiles (push_error m e s) = writtenFiles s"
  "renamedFiles (push_error m e s) = renamedFiles s"
  "deletedFiles (push_error m e s) = deletedFiles s"
  "writtenFiles (log_parse_warnings ws s) = writtenFiles s"
  "renamedFiles (log_parse_warnings ws s) = renamedFiles s"
  "deletedFiles (log_parse_warnings ws s) = deletedFiles s"
  "writtenFiles (record_call c s) = writtenFiles s"
  "renamedFiles (record_call c s) = renamedFiles s"
  "deletedFiles (record_call c s) = deletedFiles s"
  "writtenFiles (snd (external env c s)) = writtenFiles s"
  "renamedFiles (snd (external env c s)) = renamedFiles s"
  "deletedFiles (snd (external env c s)) = deletedFiles s"
  "writtenFiles (db_update mid f s) = writtenFiles s"
  "renamedFiles (db_update mid f s) = renamedFiles s"
  "deletedFiles (db_update mid f s) = deletedFiles s"
  by (simp_all add: primitive_defs db_update_def)

lemma commit_hashes_simps [simp]:
  "commit_hashes (logger_warn m s) = commit_hashes s"
  "commit_hashes (logger_error m s) = commit_hashes s"
  "commit_hashes (push_warning m e s) = commit_hashes s"
  "commit_hashes (push_error m e s) = commit_hashes s"
  "commit_hashes (log_parse_warnings ws s) = commit_hashes s"
  "commit_hashes (record_call c s) = commit_hashes s"
  "commit_hashes (snd (external env c s)) = commit_hashes s"
  "commit_hashes (s\<lparr>disk := d\<rparr>) = commit_hashes s"
  "commit_hashes (s\<lparr>writtenFiles := w\<rparr>) = commit_hashes s"
  "commit_hashes (s\<lparr>renamedFiles := w\<rparr>) = commit_hashes s"
  "commit_hashes (s\<lparr>deletedFiles := w\<rparr>) = commit_hashes s"
  by (simp_all add: primitive_defs commit_hashes_def)

lemma commit_hashes_db_update:
  assumes "\<And>m. msg_commitHash (f m) = msg_commitHash m"
  shows "commit_hashes (db_update mid f s) = commit_hashes s"
  by (rule ext) (simp add: commit_hashes_def db_update_def assms option.map_comp comp_def)

lemma no_git_sql_step: "no_git_since s (sql_step env app appPath q s)"
  by (simp add: no_git_since_def quiet_def sql_step_def split_beta Let_def split: step_splits)

lemma no_git_add_dependency_step_none:
  "no_git_since s (snd (add_dependency_step env [] mid mc appPath s))"
  by (simp add: add_dependency_step_def)

lemma no_git_delete_step: "no_git_since s (snd (delete_step env app appPath p s))"
proof -
  have a: "no_git_since t (delete_on_disk env appPath p x t)" for t x
    by (simp add: no_git_since_def quiet_def delete_on_disk_def split_beta
          split: step_splits)
  have b: "no_git_since t (delete_remote env app p t)" for t
    by (simp add: no_git_since_def quiet_def delete_remote_def split_beta
          split: step_splits)
  show ?thesis
    by (simp add: delete_step_def no_git_since_trans [OF a b] split: sum.splits)
qed

lemma no_git_disk [simp]: "no_git_since s (s\<lparr>disk := d\<rparr>)"
  by (simp add: no_git_since_def quiet_def)

lemma no_git_primitives [simp]:
  "no_git_since s (push_error m e s)"
  "no_git_since s (push_warning m e s)"
  "no_git_since s (logger_warn m s)"
  "no_git_since s (logger_error m s)"
  "no_git_since s (log_parse_warnings ws s)"
  by (simp_all add: no_git_since_def quiet_def)

lemma no_git_rename_on_disk:
  "no_git_since s (snd (rename_on_disk env appPath tag a b s))"
  by (simp add: no_git_since_def quiet_def rename_on_disk_def split_beta Let_def
        split: step_splits)

lemma no_git_rename_remote: "no_git_since s (rename_remote env app tag b s)"
proof -
  have a: "no_git_since t (rename_remote_delete env app tag t)" for t
    by (simp add: no_git_since_def quiet_def rename_remote_delete_def split_beta
          split: step_splits)
  have b: "no_git_since t (rename_remote_deploy env app tag b t)" for t
    by (simp add: no_git_since_def quiet_def rename_remote_deploy_def split_beta
          split: step_splits)
  show ?thesis
    unfolding rename_remote_def by (rule no_git_since_trans [OF a b])
qed

lemma no_git_rename_step: "no_git_since s (snd (rename_step env app appPath tag s))"
proof -
  have a: "no_git_since s (snd (rename_on_disk env appPath tag x y (s\<lparr>disk := d\<rparr>)))"
    for x y d
    by (rule no_git_since_trans [OF no_git_disk no_git_rename_on_disk])
  have b: "no_git_since s
             (rename_remote env app tag y (snd (rename_on_disk env appPath tag x y (s\<lparr>disk := d\<rparr>))))"
    for x y d
    by (rule no_git_since_trans [OF a no_git_rename_remote])
  show ?thesis
    by (simp add: rename_step_def split_beta a b split: step_splits)
qed

lemma no_git_search_replace_guarded:
  "no_git_since s (snd (search_replace_guarded env app tag p s))"
  by (simp add: no_git_since_def quiet_def search_replace_guarded_def split_beta Let_def
        split: step_splits)

lemma no_git_search_replace_step:
  "no_git_since s (snd (search_replace_step env app appPath tag s))"
proof -
  have a: "no_git_since s (push_error m e (snd (search_replace_guarded env app tag p s)))"
    for m e p
    by (rule no_git_since_trans [OF no_git_search_replace_guarded no_git_primitives(1)])
  show ?thesis
    by (simp add: search_replace_step_def split_beta a no_git_search_replace_guarded
          split: step_splits)
qed

lemma changed_files_upload_substitution [simp]:
  "writtenFiles (snd (upload_substitution ups tag s)) = writtenFiles s"
  "renamedFiles (snd (upload_substitution ups tag s)) = renamedFiles s"
  "deletedFiles (snd (upload_substitution ups tag s)) = deletedFiles s"
  "commit_hashes (snd (upload_substitution ups tag s)) = commit_hashes s"
  by (simp_all add: upload_substitution_def split_beta split: step_splits)

lemma no_git_write_step: "no_git_since s (snd (write_step env app appPath ups tag s))"
  by (simp add: no_git_since_def quiet_def write_step_def split_beta Let_def
        split: step_splits)

lemma no_git_file_actions:
  "no_git_since s (snd (file_actions env fr app appPath ups ds rs ws s))"
  unfolding file_actions_def
  by (intro andThen_no_git forEach_no_git no_git_delete_step no_git_rename_step
        no_git_search_replace_step no_git_write_step)
     simp

lemma quiet_simps [simp]:
  "quiet (logger_warn m s) = quiet s"
  "quiet (logger_error m s) = quiet s"
  "quiet (push_warning m e s) = quiet s"
  "quiet (push_error m e s) = quiet s"
  "quiet (record_call c s) = quiet s"
  "quiet (snd (external env c s)) = quiet s"
  "quiet (db_update mid f s) = quiet s"
  by (simp_all add: quiet_def)

lemma quiet_amend_extra_files [simp]:
  "quiet (snd (amend_extra_files env appPath m h u s)) = quiet s"
  by (simp add: amend_extra_files_def split_beta Let_def split: step_splits)

lemma quiet_commit_changes [simp]:
  "quiet (snd (commit_changes env appPath cs mid pk n s)) = quiet s"
  by (simp add: commit_changes_def split_beta Let_def forEach_keeps split: step_splits)

lemma no_git_commit_changes:
  "no_git_since s (snd (commit_changes env appPath cs mid [] n s))"
proof (cases "quiet s")
  case True
  then show ?thesis by (simp add: commit_changes_def hasChanges_def quiet_def)
next
  case False
  then show ?thesis by (simp add: no_git_since_def)
qed

lemma no_git_commit_and_approve:
  "no_git_since s (snd (commit_and_approve env appPath cs mid [] n s))"
proof -
  have a: "no_git_since t (db_update mid (\<lambda>m. m\<lparr>msg_approvalState := Some ''approved''\<rparr>) t)"
    for t
    by (simp add: no_git_since_def commit_hashes_db_update)
  show ?thesis
    using no_git_commit_changes [of s env appPath cs mid n]
    by (auto simp: commit_and_approve_def split_beta split: sum.splits
          intro: no_git_since_trans [OF _ a])
qed

lemma no_git_run_actions:
  assumes "getDyadAddDependencyTags fr = []"
  shows "no_git_since s (snd (run_actions env fr app appPath ups mid m s))"
proof -
  have a: "no_git_since s (fold (sql_step env app appPath) qs s)" for qs
    by (rule fold_no_git) (rule no_git_sql_step)
  have b: "no_git_since t
             (snd (andThen (add_dependency_step env [] mid (msg_content m) appPath)
                     (file_actions env fr app appPath ups ds rs ws) t))" for t ds rs ws
    by (rule andThen_no_git) (rule no_git_add_dependency_step_none, rule no_git_file_actions)
  show ?thesis
    unfolding run_actions_def assms by (rule no_git_since_trans [OF a b])
qed

lemma no_git_try_block:
  assumes "getDyadAddDependencyTags fr = []"
  shows "no_git_since s (snd (try_block env fr chatId cs mid app ups s))"
proof -
  let ?s1 = "log_parse_warnings (snd (getDyadWriteTags (normalizePath env) fr)) s"
  have a: "no_git_since s ?s1" by simp
  show ?thesis
  proof (cases "findMessage ?s1 mid chatId")
    case None
    then show ?thesis
      by (simp add: try_block_def Let_def no_git_since_trans [OF a no_git_primitives(4)])
  next
    case (Some m)
    let ?r = "run_actions env fr app (getDyadAppPath env (app_path app)) ups mid m ?s1"
    have b: "no_git_since s (snd ?r)"
      by (rule no_git_since_trans [OF a no_git_run_actions [OF assms]])
    have c: "no_git_since s (snd (commit_and_approve env p cs mid [] n (snd ?r)))" for p n
      by (rule no_git_since_trans [OF b no_git_commit_and_approve])
    show ?thesis
      using Some b c by (simp add: try_block_def Let_def split_beta assms split: option.splits)
  qed
qed

lemma no_git_neon_prestep: "no_git_since s (snd (neon_prestep env app s))"
  by (simp add: no_git_since_def quiet_def neon_prestep_def split_beta
        calls_where_neon_prestep split: step_splits)

lemma no_git_finally: "no_git_since s (finally_block fr mid s)"
  by (simp add: no_git_since_def finally_block_def commit_hashes_db_update)

lemma begin_invocation_git [simp]:
  "commit_hashes (begin_invocation chatId s) = commit_hashes s"
  by (simp add: begin_invocation_def commit_hashes_def)

lemma no_git_processFullResponseActions:
  assumes "getDyadAddDependencyTags fr = []"
  shows "no_git_since (begin_invocation chatId s0)
           (snd (processFullResponseActions env fr chatId cs mid s0))"
proof -
  let ?s1 = "begin_invocation chatId s0"
  show ?thesis
  proof (cases "case db_chats ?s1 chatId of None \<Rightarrow> None | Some chat \<Rightarrow> chat_app chat")
    case None
    then show ?thesis by (simp add: processFullResponseActions_def Let_def)
  next
    case (Some app)
    let ?n = "neon_prestep env app ?s1"
    let ?t = "try_block env fr chatId cs mid app (uploadsByChat s0 chatId) (snd ?n)"
    have a: "no_git_since ?s1 (snd ?n)" by (rule no_git_neon_prestep)
    have b: "no_git_since ?s1 (snd ?t)"
      by (rule no_git_since_trans [OF a no_git_try_block [OF assms]])
    have c: "no_git_since ?s1 (finally_block fr mid (snd ?t))"
      by (rule no_git_since_trans [OF b no_git_finally])
    have d: "no_git_since ?s1 (finally_block fr mid (logger_error x (snd ?t)))" for x
      by (rule no_git_since_trans [OF no_git_since_trans [OF b no_git_primitives(4)]
            no_git_finally])
    show ?thesis
      using Some a c d
      by (simp add: processFullResponseActions_def Let_def split_beta
            split: option.splits sum.splits)
  qed
qed

text \<open>
  C8. When the response has no add-dependency tag and the invocation ends with its three
  arrays of written, renamed and deleted files empty, it has made no call to git at all
  (no staging, no commit, no removal) and the commit id stored with every message is the
  one stored before.
\<close>

theorem no_changes_no_commit:
  assumes "getDyadAddDependencyTags fullResponse = []"
    and "s' = snd (processFullResponseActions env fullResponse chatId chatSummary messageId s0)"
    and "quiet s'"
  shows "calls_where is_git s' = calls_where is_git s0
       \<and> (\<forall>i. map_option msg_commitHash (db_messages s' i)
                = map_option msg_commitHash (db_messages s0 i))"
proof -
  have q: "quiet s'" by (rule assms(3))
  have "no_git_since (begin_invocation chatId s0) s'"
    unfolding assms(2) by (rule no_git_processFullResponseActions [OF assms(1)])
  then have "calls_where is_git s' = calls_where is_git (begin_invocation chatId s0)"
    and "commit_hashes s' = commit_hashes (begin_invocation chatId s0)"
    using q by (simp_all add: no_git_since_def)
  then have "calls_where is_git s' = calls_where is_git s0"
    and "commit_hashes s' = commit_hashes s0"
    by simp_all
  then show ?thesis by (simp add: commit_hashes_def fun_eq_iff)
qed

theorem no_changes_no_commit_witness:
  "calls_where is_git
     (snd (processFullResponseActions demo_env demo_quiet_response 1 None 7 demo_state))
     = calls_where is_git demo_state
   \<and> (\<forall>i. map_option msg_commitHash
              (db_messages
                 (snd (processFullResponseActions demo_env demo_quiet_response 1 None 7
                         demo_state)) i)
            = map_option msg_commitHash (db_messages demo_state i))"
proof -
  have h1: "getDyadAddDependencyTags demo_quiet_response = []"
    by code_simp
  have h3: "quiet (snd (processFullResponseActions demo_env demo_quiet_response 1 None 7
                          demo_state))"
    by code_simp
  show ?thesis
    by (rule no_changes_no_commit [OF h1 refl h3])
qed

section \<open>The commit and a failed amend\<close>

lemma calls_where_run_actions_commit:
  "calls_where is_commit (snd (run_actions env fr app appPath ups mid m s))
   = calls_where is_commit s"
proof -
  have a: "calls_where is_commit (fold (sql_step env app appPath) qs s) = calls_where is_commit s"
    for qs
    by (rule fold_keeps) (simp add: calls_where_sql_step)
  have b: "calls_where is_commit (snd (add_dependency_step env pk mid mc appPath t))
           = calls_where is_commit t" for pk mc t
    by (simp add: calls_where_add_dependency_step)
  have c: "calls_where is_commit (snd (file_actions env fr app appPath ups ds rs ws t))
           = calls_where is_commit t" for ds rs ws t
    by (rule calls_where_file_actions) simp_all
  show ?thesis
    unfolding run_actions_def
    by (simp only: andThen_keeps [where g = "calls_where is_commit", OF b c] a)
qed

lemma msg_ids_forEach_git_add [simp]:
  "msg_ids (snd (forEach (\<lambda>file. external env (GitAdd appPath file)) fs s)) = msg_ids s"
  by (simp add: forEach_keeps)

lemma commit_hashes_set:
  "commit_hashes (db_update mid (\<lambda>m. m\<lparr>msg_commitHash := Some h\<rparr>) s) mid
   = (if mid \<in> msg_ids s then Some (Some h) else None)"
  by (auto simp: commit_hashes_def db_update_def msg_ids_def)

lemma commit_changes_not_reached:
  assumes "\<not> hasChanges pk s
           \<or> fst (forEach (\<lambda>file. external env (GitAdd appPath file)) (writtenFiles s) s) \<noteq> None"
  shows "calls_where is_commit (snd (commit_changes env appPath cs mid pk n s))
         = calls_where is_commit s"
proof (cases "hasChanges pk s")
  case False
  then show ?thesis by (simp add: commit_changes_def)
next
  case True
  then have "fst (forEach (\<lambda>file. external env (GitAdd appPath file)) (writtenFiles s) s) \<noteq> None"
    using assms by simp
  then show ?thesis
    using True by (auto simp: commit_changes_def split_beta forEach_keeps)
qed

lemma commit_changes_amend_failed:
  assumes "hasChanges pk s"
    and "fst (forEach (\<lambda>file. external env (GitAdd appPath file)) (writtenFiles s) s) = None"
    and "\<And>h p msg. gitCommit env h p msg False = Inr hash"
    and "\<And>h p. getGitUncommittedFiles env h p = Inr extra" and "extra \<noteq> []"
    and "\<And>h p. fails env h (GitAddAll p) = None"
    and "\<And>h p msg. gitCommit env h p msg True = Inl err"
  shows "fst (commit_changes env appPath cs mid pk n s) = Inr (extra, Some err)"
    and "commit_hashes (snd (commit_changes env appPath cs mid pk n s)) mid
         = (if mid \<in> msg_ids s then Some (Some hash) else None)"
  using assms
  by (simp_all add: commit_changes_def amend_extra_files_def split_beta Let_def external_def
        commit_hashes_set)

lemma commit_and_approve_cases:
  assumes "\<And>h p msg. gitCommit env h p msg False = Inr hash"
    and "\<And>h p. getGitUncommittedFiles env h p = Inr extra" and "extra \<noteq> []"
    and "\<And>h p. fails env h (GitAddAll p) = None"
    and "\<And>h p msg. gitCommit env h p msg True = Inl err"
    and "mid \<in> msg_ids s"
  shows "calls_where is_commit (snd (commit_and_approve env appPath cs mid pk n s))
           = calls_where is_commit s
       \<or> (fst (commit_and_approve env appPath cs mid pk n s) = Inr (amend_failed_result extra err)
          \<and> commit_hashes (snd (commit_and_approve env appPath cs mid pk n s)) mid
              = Some (Some hash))"
proof (cases "hasChanges pk s
              \<and> fst (forEach (\<lambda>file. external env (GitAdd appPath file)) (writtenFiles s) s) = None")
  case False
  then have "calls_where is_commit (snd (commit_changes env appPath cs mid pk n s))
             = calls_where is_commit s"
    by (intro commit_changes_not_reached) auto
  then show ?thesis
    by (simp add: commit_and_approve_def split_beta split: sum.splits)
next
  case True
  note r = commit_changes_amend_failed [OF True [THEN conjunct1] True [THEN conjunct2]
      assms(1,2,3,4,5), of cs mid n]
  have "fst (commit_and_approve env appPath cs mid pk n s) = Inr (amend_failed_result extra err)"
    using r(1) True assms(3)
    by (cases "commit_changes env appPath cs mid pk n s")
       (simp add: commit_and_approve_def amend_failed_result_def)
  moreover have "commit_hashes (snd (commit_and_approve env appPath cs mid pk n s)) mid
                 = Some (Some hash)"
    using r assms(6)
    by (cases "commit_changes env appPath cs mid pk n s")
       (simp add: commit_and_approve_def commit_hashes_db_update)
  ultimately show ?thesis by simp
qed

lemma try_block_cases:
  assumes "\<And>h p msg. gitCommit env h p msg False = Inr hash"
    and "\<And>h p. getGitUncommittedFiles env h p = Inr extra" and "extra \<noteq> []"
    and "\<And>h p. fails env h (GitAddAll p) = None"
    and "\<And>h p msg. gitCommit env h p msg True = Inl err"
  shows "calls_where is_commit (snd (try_block env fr chatId cs mid app ups s))
           = calls_where is_commit s
       \<or> (fst (try_block env fr chatId cs mid app ups s) = Inr (amend_failed_result extra err)
          \<and> commit_hashes (snd (try_block env fr chatId cs mid app ups s)) mid
              = Some (Some hash))"
proof (cases "findMessage s mid chatId")
  case None
  then show ?thesis by (simp add: try_block_def Let_def)
next
  case (Some m)
  let ?s1 = "log_parse_warnings (snd (getDyadWriteTags (normalizePath env) fr)) s"
  let ?p = "getDyadAppPath env (app_path app)"
  let ?r = "run_actions env fr app ?p ups mid m ?s1"
  have "mid \<in> msg_ids s"
    using Some by (auto simp: findMessage_def msg_ids_def split: option.splits)
  moreover have "msg_ids ?s1 = msg_ids s" by simp
  ultimately have ids: "mid \<in> msg_ids (snd ?r)" by simp
  have c: "calls_where is_commit (snd ?r) = calls_where is_commit s"
    by (simp add: calls_where_run_actions_commit)
  show ?thesis
  proof (cases "fst ?r")
    case (Some e)
    then show ?thesis
      unfolding try_block_found [OF \<open>findMessage s mid chatId = Some m\<close>]
      using c by (simp add: split_beta)
  next
    case None
    let ?n = "length (if truthy (supabaseProjectId app) then getDyadExecuteSqlTags fr else [])"
    have t: "try_block env fr chatId cs mid app ups s
             = commit_and_approve env ?p cs mid (getDyadAddDependencyTags fr) ?n (snd ?r)"
      unfolding try_block_found [OF \<open>findMessage s mid chatId = Some m\<close>]
      using None by (simp add: split_beta)
    show ?thesis
      unfolding t
      using commit_and_approve_cases [OF assms ids, of ?p cs "getDyadAddDependencyTags fr" ?n] c
      by auto
  qed
qed

lemma processFullResponseActions_cases:
  assumes "\<And>h p msg. gitCommit env h p msg False = Inr hash"
    and "\<And>h p. getGitUncommittedFiles env h p = Inr extra" and "extra \<noteq> []"
    and "\<And>h p. fails env h (GitAddAll p) = None"
    and "\<And>h p msg. gitCommit env h p msg True = Inl err"
  shows "calls_where is_commit (snd (processFullResponseActions env fr chatId cs mid s0))
           = calls_where is_commit s0
       \<or> (fst (processFullResponseActions env fr chatId cs mid s0)
            = Returned (amend_failed_result extra err)
          \<and> commit_hashes (snd (processFullResponseActions env fr chatId cs mid s0)) mid
              = Some (Some hash))"
proof -
  let ?s1 = "begin_invocation chatId s0"
  show ?thesis
  proof (cases "case db_chats ?s1 chatId of None \<Rightarrow> None | Some chat \<Rightarrow> chat_app chat")
    case None
    then show ?thesis by (simp add: processFullResponseActions_def Let_def)
  next
    case (Some app)
    let ?n = "neon_prestep env app ?s1"
    let ?t = "try_block env fr chatId cs mid app (uploadsByChat s0 chatId) (snd ?n)"
    have n: "calls_where is_commit (snd ?n) = calls_where is_commit s0"
      by (simp add: calls_where_neon_prestep)
    have f: "commit_hashes (finally_block fr mid t) = commit_hashes t" for t
      by (simp add: finally_block_def commit_hashes_db_update)
    show ?thesis
    proof (cases "fst ?n")
      case (Some e)
      then show ?thesis
        using \<open>(case db_chats ?s1 chatId of None \<Rightarrow> None | Some chat \<Rightarrow> chat_app chat) = Some app\<close> n
        by (simp add: processFullResponseActions_def Let_def split_beta)
    next
      case None
      have p: "processFullResponseActions env fr chatId cs mid s0 =
                 (case ?t of
                    (Inr r, s3) \<Rightarrow> (Returned r, finally_block fr mid s3)
                  | (Inl e, s3) \<Rightarrow>
                      (Returned (empty_result\<lparr>res_error := Some e\<rparr>),
                       finally_block fr mid (logger_error (''Error processing files: '' @ e) s3)))"
        using \<open>(case db_chats ?s1 chatId of None \<Rightarrow> None | Some chat \<Rightarrow> chat_app chat) = Some app\<close>
          None
        by (simp add: processFullResponseActions_def Let_def split_beta)
      from try_block_cases [OF assms, of fr chatId cs mid app "uploadsByChat s0 chatId" "snd ?n"]
      show ?thesis
      proof
        assume "calls_where is_commit (snd ?t) = calls_where is_commit (snd ?n)"
        then show ?thesis
          unfolding p using n by (simp add: split_beta split: sum.splits)
      next
        assume "fst ?t = Inr (amend_failed_result extra err)
                \<and> commit_hashes (snd ?t) mid = Some (Some hash)"
        then show ?thesis
          unfolding p by (simp add: split_beta f)
      qed
    qed
  qed
qed

text \<open>
  C9. Take an invocation that records a commit (none was recorded before it), with a git
  whose first commit succeeds with id \<open>hash\<close>, which then reports uncommitted files
  \<open>extra\<close>, stages them, and whose amend fails with \<open>err\<close>. The invocation does not
  abort: it returns without a top-level error, with \<^verbatim>\<open>updatedFiles\<close> true, the
  uncommitted files and the error of the amend as \<^verbatim>\<open>extraFiles\<close> and
  \<^verbatim>\<open>extraFilesError\<close>, and the id of the first commit is stored with the message.
\<close>

theorem amend_failure_is_advisory:
  assumes "calls_where is_commit s0 = []"
    and "(out, s') = processFullResponseActions env fullResponse chatId chatSummary messageId s0"
    and "calls_where is_commit s' \<noteq> []"
    and "\<And>h p msg. gitCommit env h p msg False = Inr hash"
    and "\<And>h p. getGitUncommittedFiles env h p = Inr extra" and "extra \<noteq> []"
    and "\<And>h p. fails env h (GitAddAll p) = None"
    and "\<And>h p msg. gitCommit env h p msg True = Inl err"
  shows "out = Returned \<lparr>res_updatedFiles = Some True, res_error = None,
                          res_extraFiles = Some extra, res_extraFilesError = Some err\<rparr>
       \<and> map_option msg_commitHash (db_messages s' messageId) = Some (Some hash)"
proof -
  have o: "out = fst (processFullResponseActions env fullResponse chatId chatSummary messageId s0)"
    and s': "s' = snd (processFullResponseActions env fullResponse chatId chatSummary messageId s0)"
    using assms(2) by (metis fst_conv, metis snd_conv)
  from processFullResponseActions_cases [OF assms(4-8), of fullResponse chatId chatSummary
      messageId s0]
  have "out = Returned (amend_failed_result extra err)
        \<and> commit_hashes s' messageId = Some (Some hash)"
    using assms(1,3) unfolding o s' by auto
  then show ?thesis by (simp add: amend_failed_result_def commit_hashes_def)
qed

theorem amend_failure_is_advisory_witness:
  "fst (processFullResponseActions demo_amend_fails demo_write_response 1 None 7 demo_state)
     = Returned \<lparr>res_updatedFiles = Some True, res_error = None,
                  res_extraFiles = Some [''notes.txt''],
                  res_extraFilesError = Some ''Error: amend failed''\<rparr>
   \<and> map_option msg_commitHash
         (db_messages
            (snd (processFullResponseActions demo_amend_fails demo_write_response 1 None 7
                    demo_state)) 7)
       = Some (Some ''c0ffee'')"
proof -
  let ?P = "processFullResponseActions demo_amend_fails demo_write_response 1 None 7 demo_state"
  have h1: "calls_where is_commit demo_state = []"
    by (simp add: calls_where_def demo_state_def)
  have h2: "(fst ?P, snd ?P) = ?P" by simp
  have h3: "calls_where is_commit (snd ?P) \<noteq> []"
    by code_simp
  have h4: "\<And>h p msg. gitCommit demo_amend_fails h p msg False = Inr ''c0ffee''"
    by (simp add: demo_amend_fails_def)
  have h5: "\<And>h p. getGitUncommittedFiles demo_amend_fails h p = Inr [''notes.txt'']"
    by (simp add: demo_amend_fails_def)
  have h6: "[''notes.txt''] \<noteq> []" by simp
  have h7: "\<And>h p. fails demo_amend_fails h (GitAddAll p) = None"
    by (simp add: demo_amend_fails_def demo_env_def)
  have h8: "\<And>h p msg. gitCommit demo_amend_fails h p msg True = Inl ''Error: amend failed''"
    by (simp add: demo_amend_fails_def)
  show ?thesis
    by (rule amend_failure_is_advisory [OF h1 h2 h3 h4 h5 h6 h7 h8])
qed

section \<open>The file steps on one delete, one rename and one write\<close>



lemma disk_simps [simp]:
  "disk (logger_warn m s) = disk s"
  "disk (logger_error m s) = disk s"
  "disk (push_warning m e s) = disk s"
  "disk (push_error m e s) = disk s"
  "disk (log_parse_warnings ws s) = disk s"
  "disk (record_call c s) = disk s"
  "disk (snd (external env c s)) = disk s"
  "disk (db_update mid f s) = disk s"
  "disk (begin_invocation chatId s) = disk s"
  "disk (finally_block fr mid s) = disk s"
  by (simp_all add: primitive_defs db_update_def begin_invocation_def finally_block_def)

lemma disk_neon_prestep [simp]: "disk (snd (neon_prestep env app s)) = disk s"
  by (simp add: neon_prestep_def split_beta split: step_splits)

lemma disk_delete_remote [simp]: "disk (delete_remote env app p s) = disk s"
  by (simp add: delete_remote_def split_beta split: step_splits)

lemma disk_rename_remote [simp]: "disk (rename_remote env app tag p s) = disk s"
  by (simp add: rename_remote_def rename_remote_delete_def rename_remote_deploy_def split_beta
        split: step_splits)

lemma disk_upload_substitution [simp]: "disk (snd (upload_substitution ups tag s)) = disk s"
  by (simp add: upload_substitution_def split_beta split: step_splits)

lemma disk_amend_extra_files [simp]:
  "disk (snd (amend_extra_files env appPath m h u s)) = disk s"
  by (simp add: amend_extra_files_def split_beta Let_def split: step_splits)

lemma disk_commit_changes [simp]:
  "disk (snd (commit_changes env appPath cs mid pk n s)) = disk s"
  by (simp add: commit_changes_def split_beta Let_def forEach_keeps split: step_splits)

lemma disk_commit_and_approve [simp]:
  "disk (snd (commit_and_approve env appPath cs mid pk n s)) = disk s"
  by (simp add: commit_and_approve_def split_beta split: step_splits)

text \<open>The arrays of changed files after the file steps.\<close>

lemma changed_files_finally_block [simp]:
  "writtenFiles (finally_block fr mid s) = writtenFiles s"
  "renamedFiles (finally_block fr mid s) = renamedFiles s"
  "deletedFiles (finally_block fr mid s) = deletedFiles s"
  by (simp_all add: finally_block_def)

lemma changed_files_amend_extra_files [simp]:
  "writtenFiles (snd (amend_extra_files env appPath m h u s)) = writtenFiles s"
  "renamedFiles (snd (amend_extra_files env appPath m h u s)) = renamedFiles s"
  "deletedFiles (snd (amend_extra_files env appPath m h u s)) = deletedFiles s"
  by (simp_all add: amend_extra_files_def split_beta Let_def split: step_splits)

lemma changed_files_commit_changes [simp]:
  "writtenFiles (snd (commit_changes env appPath cs mid pk n s)) = writtenFiles s"
  "renamedFiles (snd (commit_changes env appPath cs mid pk n s)) = renamedFiles s"
  "deletedFiles (snd (commit_changes env appPath cs mid pk n s)) = deletedFiles s"
  by (simp_all add: commit_changes_def split_beta Let_def forEach_keeps split: step_splits)

lemma changed_files_commit_and_approve [simp]:
  "writtenFiles (snd (commit_and_approve env appPath cs mid pk n s)) = writtenFiles s"
  "renamedFiles (snd (commit_and_approve env appPath cs mid pk n s)) = renamedFiles s"
  "deletedFiles (snd (commit_and_approve env appPath cs mid pk n s)) = deletedFiles s"
  by (simp_all add: commit_and_approve_def split_beta split: step_splits)

text \<open>The record of calls only grows in the commit.\<close>

lemma calls_grow_primitives:
  "prefix xs (calls_where P t) \<Longrightarrow> prefix xs (calls_where P (record_call c t))"
  "prefix xs (calls_where P t) \<Longrightarrow> prefix xs (calls_where P (snd (external env c t)))"
  by simp_all





text \<open>The kinds of the nodes through the SQL loop and the installation of packages.\<close>

lemma same_kind_refl [simp]: "same_kind x x"
  by (simp add: same_kind_def)








lemma disk_note_lock_file [simp]: "disk (snd (note_lock_file env appPath f s)) = disk s"
  by (simp add: note_lock_file_def split_beta split: step_splits)



lemma changed_files_sql_step [simp]:
  "renamedFiles (sql_step env app appPath q s) = renamedFiles s"
  "deletedFiles (sql_step env app appPath q s) = deletedFiles s"
  by (simp_all add: sql_step_def split_beta Let_def split: step_splits)

lemma changed_files_executeAddDependency [simp]:
  "renamedFiles (snd (executeAddDependency env pk mid mc appPath s)) = renamedFiles s"
  "deletedFiles (snd (executeAddDependency env pk mid mc appPath s)) = deletedFiles s"
  by (simp_all add: executeAddDependency_def split_beta Let_def split: step_splits)

lemma changed_files_note_lock_file [simp]:
  "renamedFiles (snd (note_lock_file env appPath f s)) = renamedFiles s"
  "deletedFiles (snd (note_lock_file env appPath f s)) = deletedFiles s"
  by (simp_all add: note_lock_file_def split_beta split: step_splits)

lemma changed_files_add_dependency_step [simp]:
  "renamedFiles (snd (add_dependency_step env pk mid mc appPath s)) = renamedFiles s"
  "deletedFiles (snd (add_dependency_step env pk mid mc appPath s)) = deletedFiles s"
  by (simp_all add: add_dependency_step_def split_beta Let_def andThen_keeps split: step_splits)

text \<open>delete\<close>

lemma changed_files_delete_remote [simp]:
  "renamedFiles (delete_remote env app p s) = renamedFiles s"
  "deletedFiles (delete_remote env app p s) = deletedFiles s"
  "calls_where is_git (delete_remote env app p s) = calls_where is_git s"
  by (simp_all add: delete_remote_def split_beta split: step_splits)


text \<open>rename\<close>

lemma changed_files_rename_remote [simp]:
  "renamedFiles (rename_remote env app tag p s) = renamedFiles s"
  "deletedFiles (rename_remote env app tag p s) = deletedFiles s"
  "calls_where is_git (rename_remote env app tag p s) = calls_where is_git s"
  by (simp_all add: rename_remote_def rename_remote_delete_def rename_remote_deploy_def
        split_beta split: step_splits)


text \<open>search-replace\<close>

lemma same_shape_refl [simp]: "same_shape fs fs"
  by (simp add: same_shape_def)






lemma changed_files_search_replace_guarded [simp]:
  "renamedFiles (snd (search_replace_guarded env app tag p s)) = renamedFiles s"
  "deletedFiles (snd (search_replace_guarded env app tag p s)) = deletedFiles s"
  by (simp_all add: search_replace_guarded_def split_beta Let_def split: step_splits)


text \<open>write\<close>

lemma upload_substitution_keeps [simp]:
  "writtenFiles (snd (upload_substitution ups tag s)) = writtenFiles s"
  "renamedFiles (snd (upload_substitution ups tag s)) = renamedFiles s"
  "deletedFiles (snd (upload_substitution ups tag s)) = deletedFiles s"
  by (simp_all add: upload_substitution_def split_beta split: step_splits)




lemma entry_keeps [simp]:
  "renamedFiles (begin_invocation chatId s) = []"
  "deletedFiles (begin_invocation chatId s) = []"
  "renamedFiles (snd (neon_prestep env app s)) = renamedFiles s"
  "deletedFiles (snd (neon_prestep env app s)) = deletedFiles s"
  by (simp_all add: begin_invocation_def neon_prestep_def split_beta split: step_splits)




end
